theory Spec2Isabelle
  imports Main "HOL-Library.Sublist"
begin

text \<open>
  A model of \<open>scripts/zap_gradle.py\<close>, the deep clean for Gradle/Kotlin projects: the
  safety guard \<open>confirm_under_home\<close>, the deletion primitive \<open>safe_rm\<close>,
  \<open>glob_and_remove\<close>, the scanner \<open>find_project_dirs_to_remove\<close>, \<open>run_cmd\<close> and
  the sequence of \<open>main\<close>. The functions of the script are translated one by one;
  what they call in the Python library (pathlib, \<open>os.walk\<close>, \<open>glob\<close>,
  \<open>shutil.rmtree\<close>) is modelled on a POSIX filesystem with directories, files and
  symbolic links. Exceptions are values, the filesystem and the printed lines are
  passed from step to step as a state.
\<close>

section \<open>Paths (pathlib.PurePosixPath)\<close>

text \<open>
  A path is what pathlib keeps of it: whether it has the root \<open>/\<close>, and its
  components. \<open>mk_path\<close> is the constructor \<open>Path(s)\<close>: the string is cut at
  every \<open>/\<close>, empty components and \<open>.\<close> are dropped, \<open>..\<close> is kept. (The POSIX
  special case of a root written with exactly two slashes is not modelled.)
\<close>

datatype path = Path (anchored: bool) (parts: "string list")

definition sep :: char where
  "sep = CHR ''/''"

fun split_sep :: "string \<Rightarrow> string list" where
  "split_sep [] = [[]]"
| "split_sep (c # cs) =
     (if c = sep then [] # split_sep cs
      else (case split_sep cs of [] \<Rightarrow> [[c]] | w # ws \<Rightarrow> (c # w) # ws))"

definition parse_parts :: "string \<Rightarrow> string list" where
  "parse_parts s = filter (\<lambda>c. c \<noteq> [] \<and> c \<noteq> ''.'') (split_sep s)"

definition mk_path :: "string \<Rightarrow> path" where
  "mk_path s = Path (s \<noteq> [] \<and> hd s = sep) (parse_parts s)"

fun join_sep :: "string list \<Rightarrow> string" where
  "join_sep [] = []"
| "join_sep [c] = c"
| "join_sep (c # d # ds) = c @ sep # join_sep (d # ds)"

text \<open>\<open>str(p)\<close>: the root is \<open>/\<close>, the empty relative path is \<open>.\<close>.\<close>

definition str :: "path \<Rightarrow> string" where
  "str p = (if anchored p then sep # join_sep (parts p)
            else if parts p = [] then ''.'' else join_sep (parts p))"

text \<open>\<open>p / s\<close>: an absolute right-hand side replaces the left one.\<close>

definition joinpath :: "path \<Rightarrow> string \<Rightarrow> path" where
  "joinpath p s =
     (let q = mk_path s
      in if anchored q then q else Path (anchored p) (parts p @ parts q))"

text \<open>\<open>s.startswith(pre)\<close>\<close>

definition startswith :: "string \<Rightarrow> string \<Rightarrow> bool" where
  "startswith s pre = prefix pre s"

text \<open>A component as the parser produces it, and as a directory entry is named.\<close>

definition plain_name :: "string \<Rightarrow> bool" where
  "plain_name c = (c \<noteq> [] \<and> c \<noteq> ''.'' \<and> sep \<notin> set c)"


section \<open>The filesystem\<close>

text \<open>
  The filesystem is its root directory. A directory carries one permission bit, whether
  entries may be removed from it (write permission on the directory), and its entries
  in the order in which the system lists them. A symbolic link carries its target as
  the string \<open>readlink\<close> returns. Search and read permissions are not modelled: a
  lookup fails only because a component is missing, is not a directory, or because too
  many links were followed.
\<close>

datatype node = File | Symlink string | Dir bool "(string \<times> node) list"

fun entries :: "node \<Rightarrow> (string \<times> node) list" where
  "entries (Dir w es) = es"
| "entries _ = []"

fun is_Dir :: "node \<Rightarrow> bool" where
  "is_Dir (Dir w es) = True"
| "is_Dir _ = False"

fun is_Symlink :: "node \<Rightarrow> bool" where
  "is_Symlink (Symlink t) = True"
| "is_Symlink _ = False"

text \<open>The node at a physical location: no link is followed.\<close>

fun lookup_node :: "node \<Rightarrow> string list \<Rightarrow> node option" where
  "lookup_node n [] = Some n"
| "lookup_node (Dir w es) (c # cs) =
     (case map_of es c of None \<Rightarrow> None | Some ch \<Rightarrow> lookup_node ch cs)"
| "lookup_node File (c # cs) = None"
| "lookup_node (Symlink t) (c # cs) = None"

definition MAXSYMLINKS :: nat where
  "MAXSYMLINKS = 40"

definition link_start :: "string \<Rightarrow> string list \<Rightarrow> string list" where
  "link_start t cur = (if t \<noteq> [] \<and> hd t = sep then [] else cur)"

text \<open>
  The kernel's path walk, from the directory at the physical location \<open>cur\<close> along the
  components \<open>rest\<close>. It returns the physical location of the entry named, or None
  (ENOENT, ENOTDIR, ELOOP). \<open>follow\<close> says whether a link in the last component is
  followed (\<open>stat\<close>) or not (\<open>lstat\<close>).
\<close>

fun namei :: "nat \<Rightarrow> node \<Rightarrow> bool \<Rightarrow> string list \<Rightarrow> string list \<Rightarrow> string list option" where
  "namei fuel fs follow cur [] = Some cur"
| "namei fuel fs follow cur (c # cs) =
     (case lookup_node fs cur of
        Some (Dir w es) \<Rightarrow>
          if c = ''..'' then namei fuel fs follow (butlast cur) cs
          else (case map_of es c of
                  None \<Rightarrow> None
                | Some (Symlink t) \<Rightarrow>
                    if cs = [] \<and> \<not> follow then Some (cur @ [c])
                    else if fuel = 0 then None
                    else namei (fuel - 1) fs follow (link_start t cur) (parse_parts t @ cs)
                | Some _ \<Rightarrow> namei fuel fs follow (cur @ [c]) cs)
      | _ \<Rightarrow> None)"

text \<open>
  The process environment a path is interpreted in: the filesystem and the working
  directory (\<open>os.getcwd()\<close>, a physical absolute path).
\<close>

definition start_of :: "string \<Rightarrow> path \<Rightarrow> string list" where
  "start_of cwd p = (if anchored p then [] else parse_parts cwd)"

definition locate :: "node \<Rightarrow> string \<Rightarrow> bool \<Rightarrow> path \<Rightarrow> string list option" where
  "locate fs cwd follow p = namei MAXSYMLINKS fs follow (start_of cwd p) (parts p)"

definition stat :: "node \<Rightarrow> string \<Rightarrow> path \<Rightarrow> node option" where
  "stat fs cwd p = (case locate fs cwd True p of None \<Rightarrow> None | Some q \<Rightarrow> lookup_node fs q)"

definition lstat :: "node \<Rightarrow> string \<Rightarrow> path \<Rightarrow> node option" where
  "lstat fs cwd p = (case locate fs cwd False p of None \<Rightarrow> None | Some q \<Rightarrow> lookup_node fs q)"

text \<open>\<open>Path.exists\<close>, \<open>Path.is_dir\<close>, \<open>Path.is_symlink\<close>, \<open>os.path.lexists\<close>\<close>

definition exists :: "node \<Rightarrow> string \<Rightarrow> path \<Rightarrow> bool" where
  "exists fs cwd p = (stat fs cwd p \<noteq> None)"

definition is_dir :: "node \<Rightarrow> string \<Rightarrow> path \<Rightarrow> bool" where
  "is_dir fs cwd p = (case stat fs cwd p of Some n \<Rightarrow> is_Dir n | None \<Rightarrow> False)"

definition is_symlink :: "node \<Rightarrow> string \<Rightarrow> path \<Rightarrow> bool" where
  "is_symlink fs cwd p = (case lstat fs cwd p of Some n \<Rightarrow> is_Symlink n | None \<Rightarrow> False)"

definition lexists :: "node \<Rightarrow> string \<Rightarrow> path \<Rightarrow> bool" where
  "lexists fs cwd p = (lstat fs cwd p \<noteq> None)"


section \<open>Path.resolve\<close>

text \<open>
  \<open>os.path.realpath\<close> in its non-strict mode, as \<open>Path.resolve()\<close> calls it: a
  component that is missing is kept as it is written, \<open>..\<close> drops the last component
  of what is resolved so far, a link is replaced by its target. Following more than
  \<open>MAXSYMLINKS\<close> links stands for the link loop on which \<open>resolve\<close> raises.
\<close>

fun realpath :: "nat \<Rightarrow> node \<Rightarrow> string list \<Rightarrow> string list \<Rightarrow> string list option" where
  "realpath fuel fs cur [] = Some cur"
| "realpath fuel fs cur (c # cs) =
     (if c = ''..'' then realpath fuel fs (butlast cur) cs
      else (case lookup_node fs (cur @ [c]) of
              Some (Symlink t) \<Rightarrow>
                if fuel = 0 then None
                else realpath (fuel - 1) fs (link_start t cur) (parse_parts t @ cs)
            | _ \<Rightarrow> realpath fuel fs (cur @ [c]) cs))"

text \<open>An exception: its class and the text \<open>str(ex)\<close> prints.\<close>

datatype exn_class =
    RuntimeError
  | FileNotFoundError
  | NotADirectoryError
  | IsADirectoryError
  | PermissionError
  | OSError

datatype exn = Exn (cls: exn_class) (message: string)

definition resolve :: "node \<Rightarrow> string \<Rightarrow> path \<Rightarrow> exn + path" where
  "resolve fs cwd p =
     (case realpath MAXSYMLINKS fs (start_of cwd p) (parts p) of
        None \<Rightarrow> Inl (Exn RuntimeError (''Symlink loop from '' @ str p))
      | Some q \<Rightarrow> Inr (Path True q))"


section \<open>The safety guard\<close>

definition confirm_under_home :: "node \<Rightarrow> string \<Rightarrow> path \<Rightarrow> path \<Rightarrow> bool" where
  "confirm_under_home fs cwd p home =
     (case resolve fs cwd p of
        Inl ex \<Rightarrow> False
      | Inr rp \<Rightarrow>
          (case resolve fs cwd home of
             Inl ex \<Rightarrow> False
           | Inr rh \<Rightarrow> startswith (str rp) (str rh @ [sep])))"

section \<open>Removing entries\<close>

text \<open>
  The entry \<open>c\<close> of a list of entries replaced (\<open>Some\<close>) or deleted (\<open>None\<close>);
  the first entry of that name, the one a lookup finds.
\<close>

fun put_entry :: "string \<Rightarrow> node option \<Rightarrow> (string \<times> node) list \<Rightarrow> (string \<times> node) list" where
  "put_entry c v [] = []"
| "put_entry c v ((k, n) # es) =
     (if k = c then (case v of None \<Rightarrow> es | Some n' \<Rightarrow> (k, n') # es)
      else (k, n) # put_entry c v es)"

text \<open>The node at a physical location replaced or deleted. The root cannot be deleted.\<close>

fun put :: "node \<Rightarrow> string list \<Rightarrow> node option \<Rightarrow> node" where
  "put n [] v = (case v of None \<Rightarrow> n | Some n' \<Rightarrow> n')"
| "put (Dir w es) [c] v = Dir w (put_entry c v es)"
| "put (Dir w es) (c # d # cs) v =
     (case map_of es c of
        None \<Rightarrow> Dir w es
      | Some ch \<Rightarrow> Dir w (put_entry c (Some (put ch (d # cs) v)) es))"
| "put File (c # cs) v = File"
| "put (Symlink t) (c # cs) v = Symlink t"

definition writable :: "node \<Rightarrow> string list \<Rightarrow> bool" where
  "writable fs q = (case lookup_node fs q of Some (Dir w es) \<Rightarrow> w | _ \<Rightarrow> False)"

definition errno_text :: "exn_class \<Rightarrow> string" where
  "errno_text k =
     (case k of
        FileNotFoundError \<Rightarrow> ''[Errno 2] No such file or directory''
      | NotADirectoryError \<Rightarrow> ''[Errno 20] Not a directory''
      | IsADirectoryError \<Rightarrow> ''[Errno 21] Is a directory''
      | PermissionError \<Rightarrow> ''[Errno 13] Permission denied''
      | _ \<Rightarrow> ''[Errno 5] Input/output error'')"

definition os_error :: "exn_class \<Rightarrow> path \<Rightarrow> exn" where
  "os_error k p = Exn k (errno_text k @ '': '' @ [CHR 0x27] @ str p @ [CHR 0x27])"

text \<open>
  \<open>Path.unlink()\<close>: the directory holding the entry is found by the kernel's walk, the
  entry itself is not followed. Removing it needs write permission on that directory;
  a directory is not unlinked.
\<close>

definition unlink :: "node \<Rightarrow> string \<Rightarrow> path \<Rightarrow> exn + node" where
  "unlink fs cwd p =
     (if parts p = [] \<or> last (parts p) = ''..'' then Inl (os_error IsADirectoryError p)
      else (case namei MAXSYMLINKS fs True (start_of cwd p) (butlast (parts p)) of
              None \<Rightarrow> Inl (os_error FileNotFoundError p)
            | Some q \<Rightarrow>
                (case lookup_node fs q of
                   Some (Dir w es) \<Rightarrow>
                     (case map_of es (last (parts p)) of
                        None \<Rightarrow> Inl (os_error FileNotFoundError p)
                      | Some n \<Rightarrow>
                          if \<not> w then Inl (os_error PermissionError p)
                          else if is_Dir n then Inl (os_error IsADirectoryError p)
                          else Inr (put fs (q @ [last (parts p)]) None))
                 | Some _ \<Rightarrow> Inl (os_error NotADirectoryError p)
                 | None \<Rightarrow> Inl (os_error FileNotFoundError p))))"

text \<open>
  What \<open>shutil.rmtree(..., ignore_errors=True)\<close> leaves of a directory's contents: every
  entry is tried, a file or a link goes if the directory is writable, a subdirectory
  is emptied first and goes if it came out empty and the directory is writable. Links
  are removed, never followed.
\<close>

fun purge :: "node \<Rightarrow> node"
  and purge_entries :: "bool \<Rightarrow> (string \<times> node) list \<Rightarrow> (string \<times> node) list" where
  "purge (Dir w es) = Dir w (purge_entries w es)"
| "purge File = File"
| "purge (Symlink t) = Symlink t"
| "purge_entries w [] = []"
| "purge_entries w ((k, ch) # es) =
     (if is_Dir ch
      then (if w \<and> entries (purge ch) = [] then [] else [(k, purge ch)]) @ purge_entries w es
      else (if w then [] else [(k, ch)]) @ purge_entries w es)"

text \<open>
  \<open>shutil.rmtree(path, ignore_errors=True)\<close>: nothing happens on a link or on what is
  not a directory; otherwise the contents are purged and the directory itself is
  removed if it is now empty, has a name in a writable directory, and is not the root.
  No error is reported in any case.
\<close>

definition rmtree :: "node \<Rightarrow> string \<Rightarrow> path \<Rightarrow> node" where
  "rmtree fs cwd p =
     (case locate fs cwd False p of
        None \<Rightarrow> fs
      | Some q \<Rightarrow>
          (case lookup_node fs q of
             Some (Dir w es) \<Rightarrow>
               (let fs' = put fs q (Some (purge (Dir w es)))
                in if purge_entries w es = [] \<and> q \<noteq> [] \<and> parts p \<noteq> []
                      \<and> last (parts p) \<noteq> ''..'' \<and> writable fs (butlast q)
                   then put fs' q None else fs')
           | _ \<Rightarrow> fs))"

section \<open>The state of a run\<close>

text \<open>
  What a run acts on: the filesystem and the lines printed. \<open>calls\<close> is a history
  variable that the source does not have: it records, in order, every call of
  \<open>safe_rm\<close> with its path and every process started, so that properties of the calls
  themselves can be stated. Nothing reads it.
\<close>

datatype event = Rm path | Spawn "string list" string

record state =
  disk :: node
  stdout :: "string list"
  calls :: "event list"

definition print :: "string \<Rightarrow> state \<Rightarrow> state" where
  "print line s = s\<lparr>stdout := stdout s @ [line]\<rparr>"

definition record_call :: "event \<Rightarrow> state \<Rightarrow> state" where
  "record_call ev s = s\<lparr>calls := calls s @ [ev]\<rparr>"

fun join_space :: "string list \<Rightarrow> string" where
  "join_space [] = []"
| "join_space [c] = c"
| "join_space (c # d # ds) = c @ CHR '' '' # join_space (d # ds)"


section \<open>run_cmd\<close>

text \<open>
  \<open>subprocess.run\<close> is a parameter: given the command, the working directory and the
  filesystem it returns either the exception raised when the process could not be
  started or the exit status, and the filesystem the process leaves.
\<close>

type_synonym spawner = "string list \<Rightarrow> string \<Rightarrow> node \<Rightarrow> (exn + int) \<times> node"

definition run_cmd :: "spawner \<Rightarrow> string list \<Rightarrow> path \<Rightarrow> bool \<Rightarrow> bool \<Rightarrow> state \<Rightarrow> int \<times> state" where
  "run_cmd spawn cmd cwd dry_run verbose s =
     (if dry_run
      then (0, print (''DRY-RUN: would run: '' @ join_space cmd @ '' (cwd='' @ str cwd @ '')'') s)
      else
        (let s1 = (if verbose
                   then print (''RUN: '' @ join_space cmd @ '' (cwd='' @ str cwd @ '')'') s
                   else s)
         in case spawn cmd (str cwd) (disk s1) of
              (Inr returncode, fs') \<Rightarrow>
                (returncode, record_call (Spawn cmd (str cwd)) (s1\<lparr>disk := fs'\<rparr>))
            | (Inl ex, fs') \<Rightarrow>
                (1, print (''WARN: command failed: '' @ join_space cmd @ '' -> '' @ message ex)
                      (s1\<lparr>disk := fs'\<rparr>))))"


section \<open>safe_rm\<close>

definition report_removed :: "bool \<Rightarrow> path \<Rightarrow> state \<Rightarrow> state" where
  "report_removed verbose p s = (if verbose then print (''removed: '' @ str p) s else s)"

definition safe_rm :: "string \<Rightarrow> path \<Rightarrow> bool \<Rightarrow> bool \<Rightarrow> state \<Rightarrow> state" where
  "safe_rm cwd p dry_run verbose s0 =
     (let s = record_call (Rm p) s0
      in if \<not> exists (disk s) cwd p then s
         else if dry_run then print (''DRY-RUN: rm -rf '' @ str p) s
         else if is_dir (disk s) cwd p \<and> \<not> is_symlink (disk s) cwd p
         then report_removed verbose p (s\<lparr>disk := rmtree (disk s) cwd p\<rparr>)
         else (case unlink (disk s) cwd p of
                 Inr fs' \<Rightarrow> report_removed verbose p (s\<lparr>disk := fs'\<rparr>)
               | Inl ex \<Rightarrow>
                   if cls ex = IsADirectoryError
                   then report_removed verbose p (s\<lparr>disk := rmtree (disk s) cwd p\<rparr>)
                   else print (''WARN: failed to remove '' @ str p @ '': '' @ message ex) s))"


section \<open>glob_and_remove\<close>

text \<open>
  \<open>glob.glob\<close> on the string of a path, component by component. A component with a
  magic character is matched against the names the directory lists, names with a
  leading dot only if the pattern has one; one without is only checked to exist. Of the
  patterns of \<open>fnmatch\<close>, \<open>*\<close> and \<open>?\<close> are interpreted; a bracket counts as magic
  but is matched as itself (the patterns of this program have only \<open>*\<close>).
\<close>

definition has_magic :: "string \<Rightarrow> bool" where
  "has_magic c = list_ex (\<lambda>x. x = CHR ''*'' \<or> x = CHR ''?'' \<or> x = CHR ''['') c"

fun fnmatch :: "string \<Rightarrow> string \<Rightarrow> bool" where
  "fnmatch [] [] = True"
| "fnmatch (c # cs) [] = False"
| "fnmatch [] (p # ps) = (p = CHR ''*'' \<and> fnmatch [] ps)"
| "fnmatch (c # cs) (p # ps) =
     (if p = CHR ''*'' then fnmatch (c # cs) ps \<or> fnmatch cs (p # ps)
      else if p = CHR ''?'' then fnmatch cs ps
      else c = p \<and> fnmatch cs ps)"

definition ishidden :: "string \<Rightarrow> bool" where
  "ishidden c = (c \<noteq> [] \<and> hd c = CHR ''.'')"

text \<open>The names a directory lists (\<open>os.scandir\<close>); none if it cannot be listed.\<close>

definition listdir :: "node \<Rightarrow> string \<Rightarrow> path \<Rightarrow> string list" where
  "listdir fs cwd p = (case stat fs cwd p of Some (Dir w es) \<Rightarrow> map fst es | _ \<Rightarrow> [])"

definition glob1 :: "node \<Rightarrow> string \<Rightarrow> path \<Rightarrow> string \<Rightarrow> bool \<Rightarrow> string list" where
  "glob1 fs cwd d pat dironly =
     (let names = (if dironly
                   then filter (\<lambda>x. is_dir fs cwd (Path (anchored d) (parts d @ [x]))) (listdir fs cwd d)
                   else listdir fs cwd d);
          names' = (if ishidden pat then names else filter (\<lambda>x. \<not> ishidden x) names)
      in filter (\<lambda>x. fnmatch x pat) names')"

definition glob0 :: "node \<Rightarrow> string \<Rightarrow> path \<Rightarrow> string \<Rightarrow> string list" where
  "glob0 fs cwd d name =
     (if lexists fs cwd (Path (anchored d) (parts d @ [name])) then [name] else [])"

text \<open>The components are taken in reverse: the last one is the basename.\<close>

fun iglob :: "node \<Rightarrow> string \<Rightarrow> bool \<Rightarrow> bool \<Rightarrow> string list \<Rightarrow> string list list" where
  "iglob fs cwd a dironly rps =
     (if \<not> list_ex has_magic rps
      then (if lexists fs cwd (Path a (rev rps)) then [rev rps] else [])
      else (case rps of
              [] \<Rightarrow> []
            | b # rd \<Rightarrow>
                concat (map (\<lambda>d. map (\<lambda>name. d @ [name])
                                   (if has_magic b then glob1 fs cwd (Path a d) b dironly
                                    else glob0 fs cwd (Path a d) b))
                            (if list_ex has_magic rd then iglob fs cwd a True rd else [rev rd]))))"

definition glob :: "node \<Rightarrow> string \<Rightarrow> path \<Rightarrow> path list" where
  "glob fs cwd p = map (Path (anchored p)) (iglob fs cwd (anchored p) False (rev (parts p)))"

fun glob_and_remove :: "string \<Rightarrow> path \<Rightarrow> string list \<Rightarrow> bool \<Rightarrow> bool \<Rightarrow> state \<Rightarrow> state" where
  "glob_and_remove cwd base [] dry_run verbose s = s"
| "glob_and_remove cwd base (pat # patterns) dry_run verbose s =
     glob_and_remove cwd base patterns dry_run verbose
       (fold (\<lambda>hit. safe_rm cwd hit dry_run verbose) (glob (disk s) cwd (joinpath base pat)) s)"

section \<open>find_project_dirs_to_remove\<close>

definition artifacts :: "string list" where
  "artifacts = [''build'', ''.gradle'']"

definition prune :: "string list" where
  "prune = [''.git'', ''.idea'', ''.vscode'', ''.venv'', ''venv'', ''node_modules'', ''build'', ''.gradle'']"

text \<open>A path extended by the name of a directory entry (which needs no parsing).\<close>

definition child :: "path \<Rightarrow> string \<Rightarrow> path" where
  "child p c = Path (anchored p) (parts p @ [c])"

text \<open>
  \<open>DirEntry.is_dir()\<close> as \<open>os.walk\<close> asks it: a link is followed, and counts as a
  directory if it leads to one.
\<close>

definition entry_is_dir :: "node \<Rightarrow> string \<Rightarrow> path \<Rightarrow> string \<times> node \<Rightarrow> bool" where
  "entry_is_dir fs cwd cur e =
     (case snd e of
        Dir w es \<Rightarrow> True
      | File \<Rightarrow> False
      | Symlink t \<Rightarrow> is_dir fs cwd (child cur (fst e)))"

text \<open>
  \<open>os.walk(root, topdown=True)\<close> with the body of the loop: at the directory \<open>cur\<close>
  the names \<open>dirs\<close> are the entries that are directories; those named as artifacts are
  collected; the walk goes on into those that are left after pruning and are not links
  (\<open>os.walk\<close> does not follow links), in the order listed.
\<close>

fun walk :: "node \<Rightarrow> string \<Rightarrow> path \<Rightarrow> node \<Rightarrow> path list"
  and descend :: "node \<Rightarrow> string \<Rightarrow> path \<Rightarrow> (string \<times> node) list \<Rightarrow> path list" where
  "walk fs cwd cur (Dir w es) =
     map (child cur) (filter (\<lambda>d. d \<in> set artifacts) (map fst (filter (entry_is_dir fs cwd cur) es)))
     @ descend fs cwd cur es"
| "walk fs cwd cur File = []"
| "walk fs cwd cur (Symlink t) = []"
| "descend fs cwd cur [] = []"
| "descend fs cwd cur ((d, ch) # es) =
     (if entry_is_dir fs cwd cur (d, ch) \<and> d \<notin> set prune \<and> \<not> is_Symlink ch
      then walk fs cwd (child cur d) ch else [])
     @ descend fs cwd cur es"

definition find_project_dirs_to_remove :: "node \<Rightarrow> string \<Rightarrow> path \<Rightarrow> path list" where
  "find_project_dirs_to_remove fs cwd root =
     (case stat fs cwd root of None \<Rightarrow> [] | Some n \<Rightarrow> walk fs cwd root n)"


text \<open>
  The directories the scan is said to reach, in the words of the specification: from a
  directory onwards, through entries that are directories (not links) and whose names
  are not pruned. \<open>visits cur n cur' n'\<close>: starting at the directory \<open>n\<close> with
  path \<open>cur\<close>, the directory \<open>n'\<close> with path \<open>cur'\<close> is reached.
\<close>

inductive visits :: "path \<Rightarrow> node \<Rightarrow> path \<Rightarrow> node \<Rightarrow> bool" where
  here: "visits cur n cur n"
| below: "(d, ch) \<in> set es \<Longrightarrow> is_Dir ch \<Longrightarrow> d \<notin> set prune \<Longrightarrow>
          visits (child cur d) ch cur' n' \<Longrightarrow> visits cur (Dir w es) cur' n'"

code_pred visits .

text \<open>
  The artifact directories found from a directory: the entries named as artifacts, and
  being directories, of the directories reached.
\<close>

definition found :: "node \<Rightarrow> string \<Rightarrow> path \<Rightarrow> node \<Rightarrow> path set" where
  "found fs cwd cur n =
     {child cur' d | cur' d ch w es.
        visits cur n cur' (Dir w es) \<and> (d, ch) \<in> set es
        \<and> entry_is_dir fs cwd cur' (d, ch) \<and> d \<in> set artifacts}"


section \<open>main\<close>

text \<open>
  What the run reads from its process: the working directory, the home directory
  (\<open>Path.home()\<close>), what \<open>which("gradle")\<close> finds, and \<open>subprocess.run\<close>.
\<close>

record env =
  getcwd :: string
  HOME :: string
  which_gradle :: "string option"
  subprocess_run :: spawner

text \<open>The parsed arguments. (Parsing them, \<open>--version\<close> and \<open>help\<close> are not modelled.)\<close>

record args =
  gradlew :: string
  gradle_user_home :: string
  xdg_cache_home :: string
  dry_run :: bool
  aggressive :: bool
  include_kotlin_native :: bool
  verbose :: bool

definition py_bool :: "bool \<Rightarrow> string" where
  "py_bool b = (if b then ''True'' else ''False'')"

definition VERSION :: string where
  "VERSION = ''1.1.0''"

definition banner :: "env \<Rightarrow> args \<Rightarrow> state \<Rightarrow> state" where
  "banner e a s =
     print ('' dry_run='' @ py_bool (dry_run a) @ '' aggressive='' @ py_bool (aggressive a)
              @ '' include_kotlin_native='' @ py_bool (include_kotlin_native a)
              @ '' verbose='' @ py_bool (verbose a))
       (print ('' XDG_CACHE_HOME: '' @ str (mk_path (xdg_cache_home a)))
       (print ('' GRADLE_USER_HOME: '' @ str (mk_path (gradle_user_home a)))
       (print ('' gradlew: '' @ str (mk_path (gradlew a)))
       (print ('' root: '' @ str (mk_path (getcwd e)))
       (print ('' version: '' @ VERSION)
       (print ''== zap_gradle =='' s))))))"

text \<open>1) Stop daemons\<close>

definition stop_daemons :: "env \<Rightarrow> args \<Rightarrow> state \<Rightarrow> state" where
  "stop_daemons e a s =
     (if exists (disk s) (getcwd e) (mk_path (gradlew a))
      then snd (run_cmd (subprocess_run e) [str (mk_path (gradlew a)), ''--stop'']
                  (mk_path (getcwd e)) (dry_run a) (verbose a) s)
      else if which_gradle e \<noteq> None
      then snd (run_cmd (subprocess_run e) [''gradle'', ''--stop'']
                  (mk_path (getcwd e)) (dry_run a) (verbose a) s)
      else print ''WARN: gradle/gradlew not found to stop daemons; continuing'' s)"

text \<open>2) Clean build cache (best effort)\<close>

definition clean_build_cache :: "env \<Rightarrow> args \<Rightarrow> state \<Rightarrow> state" where
  "clean_build_cache e a s =
     (if exists (disk s) (getcwd e) (mk_path (gradlew a))
      then snd (run_cmd (subprocess_run e) [str (mk_path (gradlew a)), ''-q'', ''cleanBuildCache'']
                  (mk_path (getcwd e)) (dry_run a) (verbose a) s)
      else s)"

text \<open>3) Project-local build artifacts\<close>

definition remove_project_local :: "env \<Rightarrow> args \<Rightarrow> state \<Rightarrow> state" where
  "remove_project_local e a s =
     (let s1 = print ''>> Removing project-local `.gradle/` and `build/` directories'' s
      in fold (\<lambda>pth. safe_rm (getcwd e) pth (dry_run a) (verbose a))
           (find_project_dirs_to_remove (disk s1) (getcwd e) (mk_path (getcwd e))) s1)"

text \<open>4) User-level Gradle caches (safe subset): the branch taken when the guard holds.\<close>

definition remove_kotlin_shards :: "env \<Rightarrow> args \<Rightarrow> path \<Rightarrow> state \<Rightarrow> state" where
  "remove_kotlin_shards e a caches_dir s =
     (if exists (disk s) (getcwd e) caches_dir
      then fold (\<lambda>name st.
                   if is_dir (disk st) (getcwd e) (child caches_dir name)
                   then safe_rm (getcwd e) (joinpath (child caches_dir name) ''kotlin'')
                          (dry_run a) (verbose a) st
                   else st)
             (listdir (disk s) (getcwd e) caches_dir) s
      else s)"

definition remove_xdg_gradle :: "env \<Rightarrow> args \<Rightarrow> state \<Rightarrow> state" where
  "remove_xdg_gradle e a s =
     (let xdg_gradle = joinpath (mk_path (xdg_cache_home a)) ''gradle''
      in if exists (disk s) (getcwd e) xdg_gradle
         then safe_rm (getcwd e) xdg_gradle (dry_run a) (verbose a) s
         else s)"

definition prune_safe_subset :: "env \<Rightarrow> args \<Rightarrow> state \<Rightarrow> state" where
  "prune_safe_subset e a s =
     (let guh = mk_path (gradle_user_home a);
          s1 = print ''>> Pruning user-level Gradle caches (safe subset)'' s;
          s2 = fold (\<lambda>sub. safe_rm (getcwd e) (joinpath guh sub) (dry_run a) (verbose a))
                 [''daemon'', ''notifications''] s1;
          s3 = glob_and_remove (getcwd e) guh [''caches/build-cache-*'', ''vcs-*'']
                 (dry_run a) (verbose a) s2;
          s4 = remove_kotlin_shards e a (joinpath guh ''caches'') s3
      in remove_xdg_gradle e a s4)"

text \<open>5) Aggressive\<close>

definition aggressive_patterns :: "string list" where
  "aggressive_patterns = [''caches/modules-2'', ''caches/jars-*'', ''caches/transforms-*'', ''wrapper/dists'']"

definition prune_aggressive :: "env \<Rightarrow> args \<Rightarrow> state \<Rightarrow> state" where
  "prune_aggressive e a s =
     (if aggressive a
      then glob_and_remove (getcwd e) (mk_path (gradle_user_home a)) aggressive_patterns
             (dry_run a) (verbose a)
             (print ''>> AGGRESSIVE: removing dependency caches and wrapper dists'' s)
      else s)"

text \<open>The whole of 4) and 5): the guard, and what depends on it.\<close>

definition prune_user_level :: "env \<Rightarrow> args \<Rightarrow> state \<Rightarrow> state" where
  "prune_user_level e a s =
     (if \<not> confirm_under_home (disk s) (getcwd e) (mk_path (gradle_user_home a)) (mk_path (HOME e))
      then print (''SAFETY: GRADLE_USER_HOME ('' @ str (mk_path (gradle_user_home a))
                    @ '') is not under HOME ('' @ str (mk_path (HOME e))
                    @ ''); skipping user-level prune'') s
      else prune_aggressive e a (prune_safe_subset e a s))"

text \<open>6) Kotlin/Native toolchains\<close>

definition remove_konan :: "env \<Rightarrow> args \<Rightarrow> state \<Rightarrow> state" where
  "remove_konan e a s =
     (if include_kotlin_native a
      then (let konan = joinpath (mk_path (HOME e)) ''.konan''
            in if confirm_under_home (disk s) (getcwd e) konan (mk_path (HOME e))
               then safe_rm (getcwd e) konan (dry_run a) (verbose a)
                      (print ''>> Removing ~/.konan (Kotlin/Native)'' s)
               else print ''SAFETY: refusing to remove ~/.konan outside HOME'' s)
      else s)"

definition main :: "env \<Rightarrow> args \<Rightarrow> state \<Rightarrow> int \<times> state" where
  "main e a s =
     (0, print ''>> zap complete''
           (remove_konan e a
           (prune_user_level e a
           (remove_project_local e a
           (clean_build_cache e a
           (stop_daemons e a
           (banner e a s)))))))"

section \<open>Describing the calls of a tier\<close>

text \<open>
  \<open>only_calls P s s'\<close>: from \<open>s\<close> to \<open>s'\<close> the history of calls has only grown, and
  every call added satisfies \<open>P\<close>.
\<close>

definition only_calls :: "(event \<Rightarrow> bool) \<Rightarrow> state \<Rightarrow> state \<Rightarrow> bool" where
  "only_calls P s s' = (\<exists>evs. calls s' = calls s @ evs \<and> (\<forall>ev \<in> set evs. P ev))"

text \<open>
  The last component of a path is one of those the aggressive patterns name:
  \<open>modules-2\<close>, \<open>dists\<close>, or a match of \<open>jars-*\<close> or \<open>transforms-*\<close>.
\<close>

definition aggressive_name :: "string \<Rightarrow> bool" where
  "aggressive_name c =
     (c = ''modules-2'' \<or> c = ''dists'' \<or> fnmatch c ''jars-*'' \<or> fnmatch c ''transforms-*'')"

definition spares_aggressive :: "event \<Rightarrow> bool" where
  "spares_aggressive ev =
     (case ev of
        Rm p \<Rightarrow> parts p \<noteq> [] \<and> \<not> aggressive_name (last (parts p))
      | Spawn cmd cwd \<Rightarrow> False)"


definition takes_aggressive :: "event \<Rightarrow> bool" where
  "takes_aggressive ev =
     (case ev of
        Rm p \<Rightarrow> parts p \<noteq> [] \<and> aggressive_name (last (parts p))
      | Spawn cmd cwd \<Rightarrow> False)"


text \<open>A call of \<open>safe_rm\<close>, as opposed to a process started.\<close>

definition is_Rm :: "event \<Rightarrow> bool" where
  "is_Rm ev = (case ev of Rm p \<Rightarrow> True | Spawn cmd cwd \<Rightarrow> False)"


section \<open>Example inputs\<close>

text \<open>
  A home directory \<open>/home/u\<close> holding a link \<open>x\<close> that leads out of it, a
  directory \<open>y\<close>, and a link \<open>loop\<close> to itself.
\<close>

definition linked_fs :: node where
  "linked_fs =
     Dir True
       [(''home'', Dir True
          [(''u'', Dir True
             [(''x'', Symlink ''/etc''), (''y'', Dir True []), (''loop'', Symlink ''loop'')])]),
        (''etc'', Dir True [])]"

text \<open>A machine whose home directory is the root.\<close>

definition rootfs :: node where
  "rootfs = Dir True [(''.gradle'', Dir True [(''daemon'', Dir True [])])]"

definition no_process :: spawner where
  "no_process cmd cwd fs = (Inl (Exn FileNotFoundError ''[Errno 2] No such file or directory''), fs)"

definition root_env :: env where
  "root_env = \<lparr>getcwd = ''/work'', HOME = ''/'', which_gradle = None, subprocess_run = no_process\<rparr>"

definition root_args :: args where
  "root_args =
     \<lparr>gradlew = ''./gradlew'', gradle_user_home = ''/.gradle'', xdg_cache_home = ''/.cache'',
      dry_run = False, aggressive = True, include_kotlin_native = False, verbose = True\<rparr>"


text \<open>
  A project in \<open>/proj\<close> with artifact directories (one of them under \<open>.git\<close>, one
  a link), a home directory with a Gradle user home, and a cache directory outside the
  home directory.
\<close>

definition demo_fs :: node where
  "demo_fs =
     Dir True
       [(''home'', Dir True
          [(''u'', Dir True
             [(''.gradle'', Dir True
                [(''caches'', Dir True
                   [(''build-cache-1'', Dir True [(''f'', File)]),
                    (''modules-2'', Dir True [(''kotlin'', Dir True [(''k'', File)]), (''files'', File)]),
                    (''jars-9'', Dir True [])]),
                 (''wrapper'', Dir True [(''dists'', Dir True [])]),
                 (''daemon'', Dir True [])])])]),
        (''tmp'', Dir True [(''cache'', Dir True [(''gradle'', Dir True [(''f'', File)])])]),
        (''proj'', Dir True
           [(''build'', Dir True [(''build'', Dir True [])]),
            (''.git'', Dir True [(''build'', Dir True [])]),
            (''app'', Dir True [(''.gradle'', Dir True []), (''build'', Symlink ''/tmp'')]),
            (''gradlew'', File)])]"

definition exit0 :: spawner where
  "exit0 cmd cwd fs = (Inr 0, fs)"

definition demo_env :: env where
  "demo_env = \<lparr>getcwd = ''/proj'', HOME = ''/home/u'', which_gradle = None, subprocess_run = exit0\<rparr>"

definition demo_args :: args where
  "demo_args =
     \<lparr>gradlew = ''./gradlew'', gradle_user_home = ''/home/u/.gradle'',
      xdg_cache_home = ''/tmp/cache'', dry_run = False, aggressive = False,
      include_kotlin_native = False, verbose = True\<rparr>"

definition demo_state :: state where
  "demo_state = \<lparr>disk = demo_fs, stdout = [], calls = []\<rparr>"

text \<open>A directory \<open>/data\<close> from which nothing may be removed.\<close>

definition locked_fs :: node where
  "locked_fs = Dir True [(''data'', Dir False [(''keep'', Dir True [(''f'', File)]), (''g'', File)])]"


section \<open>Properties of paths and of resolution\<close>

lemma split_sep_nonempty: "split_sep s \<noteq> []"
  by (induction s) (auto split: list.splits)

lemma split_sep_no_sep: "c \<in> set (split_sep s) \<Longrightarrow> sep \<notin> set c"
proof (induction s arbitrary: c)
  case Nil
  then show ?case by simp
next
  case (Cons a s)
  show ?case
  proof (cases "a = sep")
    case True
    with Cons show ?thesis by auto
  next
    case False
    obtain w ws where sp: "split_sep s = w # ws"
      using split_sep_nonempty [of s] by (cases "split_sep s") auto
    from Cons.prems False sp have "c = a # w \<or> c \<in> set ws" by auto
    then show ?thesis
      using Cons.IH [of w] Cons.IH [of c] sp False by auto
  qed
qed

lemma parse_parts_plain: "c \<in> set (parse_parts s) \<Longrightarrow> plain_name c"
  by (auto simp: parse_parts_def plain_name_def dest: split_sep_no_sep)

lemma split_sep_plain: "sep \<notin> set x \<Longrightarrow> split_sep x = [x]"
  by (induction x) auto

lemma parse_parts_name: "plain_name x \<Longrightarrow> parse_parts x = [x]"
  by (simp add: parse_parts_def plain_name_def split_sep_plain)

lemma mk_path_name: "plain_name x \<Longrightarrow> mk_path x = Path False [x]"
  by (cases x) (auto simp: mk_path_def parse_parts_name plain_name_def)

lemma joinpath_name: "plain_name x \<Longrightarrow> joinpath p x = child p x"
  by (simp add: joinpath_def mk_path_name child_def)

lemma realpath_plain:
  "realpath fuel fs cur rest = Some r \<Longrightarrow> \<forall>c\<in>set cur. plain_name c \<Longrightarrow>
   \<forall>c\<in>set rest. plain_name c \<Longrightarrow> \<forall>c\<in>set r. plain_name c"
proof (induction fuel fs cur rest rule: realpath.induct)
  case (1 fuel fs cur)
  then show ?case by simp
next
  case (2 fuel fs cur c cs)
  have pc: "plain_name c" and pcs: "\<forall>c\<in>set cs. plain_name c"
    using "2.prems"(3) by simp_all
  show ?case
  proof (cases "c = ''..''")
    case True
    then have r: "realpath fuel fs (butlast cur) cs = Some r"
      using "2.prems"(1) by simp
    have "\<forall>c\<in>set (butlast cur). plain_name c"
      using "2.prems"(2) by (meson in_set_butlastD)
    then show ?thesis
      using "2.IH"(1) [OF True r] pcs by blast
  next
    case False
    show ?thesis
    proof (cases "\<exists>t. lookup_node fs (cur @ [c]) = Some (Symlink t)")
      case True
      then obtain t where lk: "lookup_node fs (cur @ [c]) = Some (Symlink t)" by blast
      from "2.prems"(1) False lk have f: "fuel \<noteq> 0"
        and r: "realpath (fuel - 1) fs (link_start t cur) (parse_parts t @ cs) = Some r"
        by (simp_all split: if_splits)
      have "\<forall>c\<in>set (link_start t cur). plain_name c"
        using "2.prems"(2) by (simp add: link_start_def)
      moreover have "\<forall>c\<in>set (parse_parts t @ cs). plain_name c"
        using pcs by (auto dest: parse_parts_plain)
      ultimately show ?thesis
        using "2.IH"(4) [OF False lk refl f r] by blast
    next
      case nolink: False
      then have r: "realpath fuel fs (cur @ [c]) cs = Some r"
        using "2.prems"(1) False by (simp split: option.splits node.splits)
      have pl: "\<forall>a\<in>set (cur @ [c]). plain_name a"
        using "2.prems"(2) pc by simp
      show ?thesis
      proof (cases "lookup_node fs (cur @ [c])")
        case None
        show ?thesis using "2.IH"(2) [OF False None r pl pcs] .
      next
        case (Some n)
        show ?thesis
        proof (cases n)
          case File
          show ?thesis using "2.IH"(3) [OF False Some File r pl pcs] .
        next
          case (Symlink t)
          with Some nolink show ?thesis by simp
        next
          case (Dir w es)
          show ?thesis using "2.IH"(5) [OF False Some Dir r pl pcs] .
        qed
      qed
    qed
  qed
qed

lemma realpath_snoc:
  "realpath fuel fs cur rest = Some r \<Longrightarrow> x \<noteq> ''..'' \<Longrightarrow>
   (\<forall>t. lookup_node fs (r @ [x]) \<noteq> Some (Symlink t)) \<Longrightarrow>
   realpath fuel fs cur (rest @ [x]) = Some (r @ [x])"
proof (induction fuel fs cur rest rule: realpath.induct)
  case (1 fuel fs cur)
  then show ?case by (auto split: option.splits node.splits)
next
  case (2 fuel fs cur c cs)
  then show ?case
    by (auto split: option.splits node.splits if_splits)
qed

lemma join_sep_snoc: "r \<noteq> [] \<Longrightarrow> join_sep (r @ [x]) = join_sep r @ sep # x"
  by (induction r rule: join_sep.induct) auto

lemma join_sep_no_sep_head:
  "\<forall>c\<in>set r. plain_name c \<Longrightarrow> \<not> prefix [sep] (join_sep r)"
  by (induction r rule: join_sep.induct) (auto simp: plain_name_def prefix_Cons neq_Nil_conv)

lemma str_root_sep: "str (Path True []) @ [sep] = [sep, sep]"
  by (simp add: str_def)

lemma no_double_sep:
  "\<forall>c\<in>set r. plain_name c \<Longrightarrow> \<not> startswith (str (Path True r)) [sep, sep]"
  using join_sep_no_sep_head [of r] by (simp add: startswith_def str_def)

lemma mk_path_plain: "\<forall>c\<in>set (parts (mk_path s)). plain_name c"
  by (simp add: mk_path_def parse_parts_plain)

lemma joinpath_plain:
  "\<forall>c\<in>set (parts p). plain_name c \<Longrightarrow> \<forall>c\<in>set (parts (joinpath p s)). plain_name c"
  by (auto simp: joinpath_def Let_def mk_path_def dest: parse_parts_plain)

lemma start_of_plain: "\<forall>c\<in>set (start_of cwd p). plain_name c"
  by (simp add: start_of_def parse_parts_plain)

lemma resolve_plain:
  "resolve fs cwd p = Inr rp \<Longrightarrow> \<forall>c\<in>set (parts p). plain_name c \<Longrightarrow>
   anchored rp \<and> (\<forall>c\<in>set (parts rp). plain_name c)"
  using realpath_plain [of MAXSYMLINKS fs "start_of cwd p" "parts p"] start_of_plain [of cwd p]
  by (auto simp: resolve_def split: option.splits)

lemma root_home_rejects:
  assumes "resolve fs cwd home = Inr (Path True [])" and "\<forall>c\<in>set (parts p). plain_name c"
  shows "\<not> confirm_under_home fs cwd p home"
proof (cases "resolve fs cwd p")
  case (Inl ex)
  then show ?thesis by (simp add: confirm_under_home_def)
next
  case (Inr rp)
  from resolve_plain [OF Inr assms(2)] obtain r where rp: "rp = Path True r"
    and pl: "\<forall>c\<in>set r. plain_name c"
    by (cases rp) auto
  show ?thesis
    using no_double_sep [OF pl] assms(1) Inr rp
    by (simp add: confirm_under_home_def str_root_sep)
qed

lemma confirm_self: "\<not> confirm_under_home fs cwd h h"
  by (auto simp: confirm_under_home_def startswith_def split: sum.splits)

lemma resolve_child:
  assumes "resolve fs cwd h = Inr (Path True rh)" and "plain_name x" and "x \<noteq> ''..''"
    and "\<forall>t. lookup_node fs (rh @ [x]) \<noteq> Some (Symlink t)"
  shows "resolve fs cwd (joinpath h x) = Inr (Path True (rh @ [x]))"
proof -
  from assms(1) have r: "realpath MAXSYMLINKS fs (start_of cwd h) (parts h) = Some rh"
    by (auto simp: resolve_def split: option.splits)
  have "start_of cwd (child h x) = start_of cwd h"
    by (simp add: start_of_def child_def)
  with realpath_snoc [OF r assms(3,4)] show ?thesis
    by (simp add: resolve_def joinpath_name [OF assms(2)] child_def)
qed

lemma confirm_child:
  assumes "resolve fs cwd h = Inr (Path True rh)" and "rh \<noteq> []" and "plain_name x" and "x \<noteq> ''..''"
    and "\<forall>t. lookup_node fs (rh @ [x]) \<noteq> Some (Symlink t)"
  shows "confirm_under_home fs cwd (joinpath h x) h"
  using resolve_child [OF assms(1,3,4,5)] assms(1,2)
  by (simp add: confirm_under_home_def startswith_def str_def join_sep_snoc)

lemmas path_eval = mk_path_def parse_parts_def joinpath_def child_def str_def sep_def
  start_of_def link_start_def startswith_def plain_name_def
lemmas fs_eval = resolve_def confirm_under_home_def MAXSYMLINKS_def locate_def stat_def lstat_def
  exists_def is_dir_def is_symlink_def lexists_def

section \<open>The safety guard: what it accepts\<close>

text \<open>
  Claim C2, as stated, says that \<open>confirm_under_home(h/x, h)\<close> is true for any child
  \<open>x\<close> of \<open>h\<close>. The guard compares resolved paths, so a child that is a link
  leading out of the home directory is rejected: in \<open>linked_fs\<close> the entry
  \<open>/home/u/x\<close> is a link to \<open>/etc\<close>, and the guard answers false for it.
\<close>

theorem confirm_under_home_link_counterexample:
  "is_symlink linked_fs ''/'' (joinpath (mk_path ''/home/u'') ''x'')
   \<and> \<not> confirm_under_home linked_fs ''/'' (joinpath (mk_path ''/home/u'') ''x'') (mk_path ''/home/u'')"
  by (simp add: linked_fs_def path_eval fs_eval)

text \<open>
  Claim C2, amended. For every filesystem, working directory and paths: the home
  directory is not under itself; \<open>h/x\<close> is under \<open>h\<close> when \<open>h\<close> resolves to a
  directory other than the root, \<open>x\<close> is a single name other than \<open>..\<close>, and the
  entry \<open>x\<close> of the resolved home is not a symbolic link; a path whose resolved
  string does not begin with the resolved string of the home is not under it; and when
  resolving either argument raises, the answer is false (the function has a boolean
  result in every case).
\<close>

theorem confirm_under_home_contract:
  "\<not> confirm_under_home fs cwd h h
   \<and> (resolve fs cwd h = Inr (Path True rh) \<and> rh \<noteq> [] \<and> plain_name x \<and> x \<noteq> ''..''
        \<and> (\<forall>t. lookup_node fs (rh @ [x]) \<noteq> Some (Symlink t))
      \<longrightarrow> confirm_under_home fs cwd (joinpath h x) h)
   \<and> (resolve fs cwd other = Inr ro \<and> resolve fs cwd h = Inr rh' \<and> \<not> prefix (str rh') (str ro)
      \<longrightarrow> \<not> confirm_under_home fs cwd other h)
   \<and> ((\<exists>ex. resolve fs cwd p = Inl ex \<or> resolve fs cwd h = Inl ex)
      \<longrightarrow> \<not> confirm_under_home fs cwd p h)"
proof (intro conjI impI)
  show "\<not> confirm_under_home fs cwd h h" by (rule confirm_self)
next
  assume "resolve fs cwd h = Inr (Path True rh) \<and> rh \<noteq> [] \<and> plain_name x \<and> x \<noteq> ''..''
        \<and> (\<forall>t. lookup_node fs (rh @ [x]) \<noteq> Some (Symlink t))"
  then show "confirm_under_home fs cwd (joinpath h x) h"
    using confirm_child [of fs cwd h rh x] by blast
next
  assume "resolve fs cwd other = Inr ro \<and> resolve fs cwd h = Inr rh' \<and> \<not> prefix (str rh') (str ro)"
  then show "\<not> confirm_under_home fs cwd other h"
    by (auto simp: confirm_under_home_def startswith_def dest: append_prefixD)
next
  assume "\<exists>ex. resolve fs cwd p = Inl ex \<or> resolve fs cwd h = Inl ex"
  then show "\<not> confirm_under_home fs cwd p h"
    by (auto simp: confirm_under_home_def split: sum.splits)
qed

text \<open>The amended claim C2 at \<open>linked_fs\<close>, every hypothesis holding there.\<close>

theorem confirm_under_home_contract_witness:
  "(resolve linked_fs ''/'' (mk_path ''/home/u'') = Inr (Path True [''home'', ''u''])
      \<and> [''home'', ''u''] \<noteq> [] \<and> plain_name ''y'' \<and> ''y'' \<noteq> ''..''
      \<and> (\<forall>t. lookup_node linked_fs ([''home'', ''u''] @ [''y'']) \<noteq> Some (Symlink t)))
   \<and> confirm_under_home linked_fs ''/'' (joinpath (mk_path ''/home/u'') ''y'') (mk_path ''/home/u'')
   \<and> (resolve linked_fs ''/'' (mk_path ''/etc/passwd'') = Inr (Path True [''etc'', ''passwd''])
      \<and> \<not> prefix (str (Path True [''home'', ''u''])) (str (Path True [''etc'', ''passwd''])))
   \<and> \<not> confirm_under_home linked_fs ''/'' (mk_path ''/etc/passwd'') (mk_path ''/home/u'')
   \<and> (\<exists>ex. resolve linked_fs ''/'' (mk_path ''/home/u/loop'') = Inl ex)
   \<and> \<not> confirm_under_home linked_fs ''/'' (mk_path ''/home/u/loop'') (mk_path ''/home/u'')
   \<and> \<not> confirm_under_home linked_fs ''/'' (mk_path ''/home/u'') (mk_path ''/home/u'')"
proof -
  have a: "resolve linked_fs ''/'' (mk_path ''/home/u'') = Inr (Path True [''home'', ''u''])"
    by (simp add: linked_fs_def path_eval fs_eval)
  have b: "plain_name ''y'' \<and> ''y'' \<noteq> ''..''
      \<and> (\<forall>t. lookup_node linked_fs ([''home'', ''u''] @ [''y'']) \<noteq> Some (Symlink t))"
    by (simp add: linked_fs_def path_eval)
  have c: "resolve linked_fs ''/'' (mk_path ''/etc/passwd'') = Inr (Path True [''etc'', ''passwd''])"
    by (simp add: linked_fs_def path_eval fs_eval)
  have d: "\<not> prefix (str (Path True [''home'', ''u''])) (str (Path True [''etc'', ''passwd'']))"
    by (simp add: path_eval)
  have e: "\<exists>ex. resolve linked_fs ''/'' (mk_path ''/home/u/loop'') = Inl ex"
    by (simp add: linked_fs_def path_eval fs_eval)
  show ?thesis
    using a b c d e
      confirm_under_home_contract [of linked_fs "''/''" "mk_path ''/home/u''" "[''home'', ''u'']" "''y''"
        "mk_path ''/etc/passwd''" "Path True [''etc'', ''passwd'']" "Path True [''home'', ''u'']"
        "mk_path ''/home/u/loop''"]
    by blast
qed

section \<open>A home directory at the root\<close>

text \<open>
  Claim C10. When the home directory resolves to the root \<open>/\<close>, the prefix the guard
  requires is \<open>//\<close>; no resolved path begins with it, so the guard answers false for
  every path (built from a string, or by joining), and the user-level tier is skipped
  with its warning, whatever the configuration.
\<close>

theorem root_home_skips_user_level:
  assumes "resolve (disk st) (getcwd e) (mk_path (HOME e)) = Inr (Path True [])"
  shows "str (Path True []) @ [sep] = ''//''
   \<and> (\<forall>s. \<not> confirm_under_home (disk st) (getcwd e) (mk_path s) (mk_path (HOME e)))
   \<and> (\<forall>s t. \<not> confirm_under_home (disk st) (getcwd e) (joinpath (mk_path s) t) (mk_path (HOME e)))
   \<and> prune_user_level e a st =
       print (''SAFETY: GRADLE_USER_HOME ('' @ str (mk_path (gradle_user_home a))
                @ '') is not under HOME ('' @ str (mk_path (HOME e))
                @ ''); skipping user-level prune'') st"
proof -
  have 1: "\<not> confirm_under_home (disk st) (getcwd e) (mk_path s) (mk_path (HOME e))" for s
    using root_home_rejects [OF assms mk_path_plain] .
  have 2: "\<not> confirm_under_home (disk st) (getcwd e) (joinpath (mk_path s) t) (mk_path (HOME e))" for s t
    using root_home_rejects [OF assms joinpath_plain [OF mk_path_plain]] .
  show ?thesis
    using 1 2 by (simp add: prune_user_level_def str_def sep_def)
qed

text \<open>Claim C10 on a machine whose \<open>HOME\<close> is \<open>/\<close>.\<close>

theorem root_home_skips_user_level_witness:
  "resolve rootfs ''/work'' (mk_path ''/'') = Inr (Path True [])
   \<and> \<not> confirm_under_home rootfs ''/work'' (mk_path ''/.gradle'') (mk_path ''/'')
   \<and> disk (prune_user_level root_env root_args \<lparr>disk = rootfs, stdout = [], calls = []\<rparr>) = rootfs"
proof -
  have a: "resolve (disk \<lparr>disk = rootfs, stdout = [], calls = []\<rparr>) (getcwd root_env) (mk_path (HOME root_env))
      = Inr (Path True [])"
    by (simp add: root_env_def rootfs_def path_eval fs_eval)
  note th = root_home_skips_user_level [OF a, of root_args, THEN conjunct2]
  show ?thesis
    using a th by (simp add: root_env_def print_def)
qed

section \<open>Dry run\<close>

lemma safe_rm_dry_disk: "disk (safe_rm cwd p True v s) = disk s"
  by (simp add: safe_rm_def Let_def record_call_def print_def)

lemma fold_safe_rm_dry_disk:
  "disk (fold (\<lambda>p. safe_rm cwd p True v) ps s) = disk s"
  by (induction ps arbitrary: s) (simp_all add: safe_rm_dry_disk)

lemma glob_and_remove_dry_disk: "disk (glob_and_remove cwd base pats True v s) = disk s"
  by (induction pats arbitrary: s) (simp_all add: fold_safe_rm_dry_disk)

lemma run_cmd_dry:
  "run_cmd sp cmd wd True v s =
     (0, print (''DRY-RUN: would run: '' @ join_space cmd @ '' (cwd='' @ str wd @ '')'') s)"
  by (simp add: run_cmd_def)

lemma print_disk: "disk (print l s) = disk s"
  by (simp add: print_def)

lemma banner_disk: "disk (banner e a s) = disk s"
  by (simp add: banner_def print_disk)

lemma stop_daemons_dry_disk: "dry_run a \<Longrightarrow> disk (stop_daemons e a s) = disk s"
  by (simp add: stop_daemons_def run_cmd_dry print_disk)

lemma clean_build_cache_dry_disk: "dry_run a \<Longrightarrow> disk (clean_build_cache e a s) = disk s"
  by (simp add: clean_build_cache_def run_cmd_dry print_disk)

lemma remove_project_local_dry_disk: "dry_run a \<Longrightarrow> disk (remove_project_local e a s) = disk s"
  by (simp add: remove_project_local_def Let_def fold_safe_rm_dry_disk print_disk)

lemma fold_kotlin_dry_disk:
  "disk (fold (\<lambda>name st.
                   if is_dir (disk st) cwd (child c name)
                   then safe_rm cwd (joinpath (child c name) ''kotlin'') True v st
                   else st) ns s) = disk s"
  by (induction ns arbitrary: s) (simp_all add: safe_rm_dry_disk)

lemma remove_kotlin_shards_dry_disk:
  "dry_run a \<Longrightarrow> disk (remove_kotlin_shards e a c s) = disk s"
  by (simp add: remove_kotlin_shards_def fold_kotlin_dry_disk cong: if_cong)

lemma remove_xdg_gradle_dry_disk: "dry_run a \<Longrightarrow> disk (remove_xdg_gradle e a s) = disk s"
  by (simp add: remove_xdg_gradle_def Let_def safe_rm_dry_disk)

lemma prune_safe_subset_dry_disk: "dry_run a \<Longrightarrow> disk (prune_safe_subset e a s) = disk s"
  by (simp add: prune_safe_subset_def Let_def remove_xdg_gradle_dry_disk
      remove_kotlin_shards_dry_disk glob_and_remove_dry_disk safe_rm_dry_disk print_disk
      del: glob_and_remove.simps)

lemma prune_aggressive_dry_disk: "dry_run a \<Longrightarrow> disk (prune_aggressive e a s) = disk s"
  by (simp add: prune_aggressive_def glob_and_remove_dry_disk print_disk del: glob_and_remove.simps)

lemma prune_user_level_dry_disk: "dry_run a \<Longrightarrow> disk (prune_user_level e a s) = disk s"
  by (simp add: prune_user_level_def prune_aggressive_dry_disk prune_safe_subset_dry_disk print_disk)

lemma remove_konan_dry_disk: "dry_run a \<Longrightarrow> disk (remove_konan e a s) = disk s"
  by (simp add: remove_konan_def Let_def safe_rm_dry_disk print_disk)

lemma main_dry_disk: "dry_run a \<Longrightarrow> disk (snd (main e a s)) = disk s"
  by (simp add: main_def print_disk remove_konan_dry_disk prune_user_level_dry_disk
      remove_project_local_dry_disk clean_build_cache_dry_disk stop_daemons_dry_disk banner_disk)

section \<open>The run does not start processes when dry\<close>

lemma banner_spawner: "banner (e\<lparr>subprocess_run := sp\<rparr>) a s = banner e a s"
  by (simp add: banner_def)

lemma stop_daemons_dry_spawner:
  "dry_run a \<Longrightarrow> stop_daemons (e\<lparr>subprocess_run := sp\<rparr>) a s = stop_daemons e a s"
  by (simp add: stop_daemons_def run_cmd_dry)

lemma clean_build_cache_dry_spawner:
  "dry_run a \<Longrightarrow> clean_build_cache (e\<lparr>subprocess_run := sp\<rparr>) a s = clean_build_cache e a s"
  by (simp add: clean_build_cache_def run_cmd_dry)

lemma remove_project_local_spawner:
  "remove_project_local (e\<lparr>subprocess_run := sp\<rparr>) a s = remove_project_local e a s"
  by (simp add: remove_project_local_def)

lemma prune_user_level_spawner:
  "prune_user_level (e\<lparr>subprocess_run := sp\<rparr>) a s = prune_user_level e a s"
  by (simp add: prune_user_level_def prune_aggressive_def prune_safe_subset_def
      remove_xdg_gradle_def remove_kotlin_shards_def Let_def
      del: glob_and_remove.simps fold_simps cong: if_cong)

lemma remove_konan_spawner:
  "remove_konan (e\<lparr>subprocess_run := sp\<rparr>) a s = remove_konan e a s"
  by (simp add: remove_konan_def Let_def cong: if_cong)

lemma main_dry_spawner:
  "dry_run a \<Longrightarrow> main (e\<lparr>subprocess_run := sp\<rparr>) a s = main e a s"
  by (simp add: main_def banner_spawner stop_daemons_dry_spawner clean_build_cache_dry_spawner
      remove_project_local_spawner prune_user_level_spawner remove_konan_spawner)

lemma safe_rm_dry_stdout:
  "stdout (safe_rm cwd p True v s) = stdout s
   \<or> stdout (safe_rm cwd p True v s) = stdout s @ [''DRY-RUN: rm -rf '' @ str p]"
  by (simp add: safe_rm_def Let_def record_call_def print_def)

section \<open>What run_cmd returns\<close>

text \<open>
  Claim C6, as stated, says that in dry-run mode \<open>run_cmd\<close> returns a sentinel distinct
  from a real exit status. It returns 0, which is what it returns when the process
  ran and exited with status 0.
\<close>

theorem run_cmd_dry_run_counterexample:
  "fst (run_cmd exit0 [''gradle'', ''--stop''] (mk_path ''/proj'') True False demo_state)
   = fst (run_cmd exit0 [''gradle'', ''--stop''] (mk_path ''/proj'') False False demo_state)"
  by (simp add: run_cmd_def exit0_def)

text \<open>
  Claim C6, amended. In dry-run mode \<open>run_cmd\<close> prints the command and the working
  directory and returns 0 (the value of a successful exit, not a value of its own)
  without calling \<open>subprocess.run\<close>; otherwise it returns the exit status of the
  process, and when the process cannot be started it prints a warning with the cause
  and returns 1.
\<close>

theorem run_cmd_contract:
  "run_cmd sp cmd wd True v s =
      (0, print (''DRY-RUN: would run: '' @ join_space cmd @ '' (cwd='' @ str wd @ '')'') s)
   \<and> (sp cmd (str wd) (disk s) = (Inr rc, fs') \<longrightarrow>
        fst (run_cmd sp cmd wd False v s) = rc
        \<and> disk (snd (run_cmd sp cmd wd False v s)) = fs')
   \<and> (sp cmd (str wd) (disk s) = (Inl ex, fs') \<longrightarrow>
        fst (run_cmd sp cmd wd False v s) = 1
        \<and> last (stdout (snd (run_cmd sp cmd wd False v s)))
            = ''WARN: command failed: '' @ join_space cmd @ '' -> '' @ message ex)"
  by (simp add: run_cmd_def print_def record_call_def)

text \<open>Claim C6, amended, with a process that exits with 0 and one that cannot start.\<close>

theorem run_cmd_contract_witness:
  "exit0 [''gradle'', ''--stop''] (str (mk_path ''/proj'')) (disk demo_state) = (Inr 0, demo_fs)
   \<and> fst (run_cmd exit0 [''gradle'', ''--stop''] (mk_path ''/proj'') False True demo_state) = 0
   \<and> no_process [''gradle'', ''--stop''] (str (mk_path ''/proj'')) (disk demo_state)
       = (Inl (Exn FileNotFoundError ''[Errno 2] No such file or directory''), demo_fs)
   \<and> fst (run_cmd no_process [''gradle'', ''--stop''] (mk_path ''/proj'') False True demo_state) = 1"
proof -
  have a: "exit0 [''gradle'', ''--stop''] (str (mk_path ''/proj'')) (disk demo_state) = (Inr 0, demo_fs)"
    by (simp add: exit0_def demo_state_def)
  have b: "no_process [''gradle'', ''--stop''] (str (mk_path ''/proj'')) (disk demo_state)
       = (Inl (Exn FileNotFoundError ''[Errno 2] No such file or directory''), demo_fs)"
    by (simp add: no_process_def demo_state_def)
  show ?thesis
    using a b
      run_cmd_contract [where sp = exit0 and cmd = "[''gradle'', ''--stop'']"
        and wd = "mk_path ''/proj''" and v = True and s = demo_state and rc = 0 and fs' = demo_fs]
      run_cmd_contract [where sp = no_process and cmd = "[''gradle'', ''--stop'']"
        and wd = "mk_path ''/proj''" and v = True and s = demo_state and fs' = demo_fs
        and ex = "Exn FileNotFoundError ''[Errno 2] No such file or directory''"]
    by blast
qed

section \<open>The guard fails: the user-level tier is skipped\<close>

lemma remove_project_local_guh:
  "remove_project_local e (a\<lparr>gradle_user_home := g\<rparr>) s = remove_project_local e a s"
  by (simp add: remove_project_local_def)

text \<open>
  Claim C7. Let \<open>s3\<close> be the state after steps 1 to 3. If the guard rejects the
  configured Gradle user home there, steps 4 and 5 print the warning that names the
  rejected directory and the home directory and do nothing else: the filesystem is
  unchanged and \<open>safe_rm\<close> is not called. The run goes on from there with step 6,
  and step 3 has done what it does for any other Gradle user home.
\<close>

theorem guard_failure_skips_tier:
  assumes "s3 = remove_project_local e a (clean_build_cache e a (stop_daemons e a (banner e a s)))"
    and "\<not> confirm_under_home (disk s3) (getcwd e) (mk_path (gradle_user_home a)) (mk_path (HOME e))"
  shows "prune_user_level e a s3 =
           print (''SAFETY: GRADLE_USER_HOME ('' @ str (mk_path (gradle_user_home a))
                    @ '') is not under HOME ('' @ str (mk_path (HOME e))
                    @ ''); skipping user-level prune'') s3
    \<and> disk (prune_user_level e a s3) = disk s3
    \<and> calls (prune_user_level e a s3) = calls s3
    \<and> snd (main e a s) = print ''>> zap complete'' (remove_konan e a (prune_user_level e a s3))
    \<and> remove_project_local e (a\<lparr>gradle_user_home := g\<rparr>) s' = remove_project_local e a s'"
  using assms by (simp add: prune_user_level_def main_def print_def remove_project_local_guh)
text \<open>
  Claim C7 on the example project with the Gradle user home set to \<open>/tmp/cache/gradle\<close>,
  outside the home directory: it is still there after the run, and the project's
  \<open>build\<close> directory is gone.
\<close>

theorem guard_failure_skips_tier_witness:
  "\<not> confirm_under_home
       (disk (remove_project_local demo_env (demo_args\<lparr>gradle_user_home := ''/tmp/cache/gradle''\<rparr>)
          (clean_build_cache demo_env (demo_args\<lparr>gradle_user_home := ''/tmp/cache/gradle''\<rparr>)
            (stop_daemons demo_env (demo_args\<lparr>gradle_user_home := ''/tmp/cache/gradle''\<rparr>)
              (banner demo_env (demo_args\<lparr>gradle_user_home := ''/tmp/cache/gradle''\<rparr>) demo_state)))))
       (getcwd demo_env) (mk_path (gradle_user_home (demo_args\<lparr>gradle_user_home := ''/tmp/cache/gradle''\<rparr>)))
       (mk_path (HOME demo_env))
   \<and> lookup_node (disk (snd (main demo_env (demo_args\<lparr>gradle_user_home := ''/tmp/cache/gradle''\<rparr>) demo_state)))
         [''tmp'', ''cache'', ''gradle''] = Some (Dir True [(''f'', File)])
   \<and> lookup_node (disk (snd (main demo_env (demo_args\<lparr>gradle_user_home := ''/tmp/cache/gradle''\<rparr>) demo_state)))
         [''proj'', ''build''] = None"
proof -
  let ?a = "demo_args\<lparr>gradle_user_home := ''/tmp/cache/gradle''\<rparr>"
  let ?s3 = "remove_project_local demo_env ?a
          (clean_build_cache demo_env ?a (stop_daemons demo_env ?a (banner demo_env ?a demo_state)))"
  have g: "\<not> confirm_under_home (disk ?s3) (getcwd demo_env) (mk_path (gradle_user_home ?a))
       (mk_path (HOME demo_env))"
    by code_simp
  have d3: "lookup_node (disk ?s3) [''tmp'', ''cache'', ''gradle''] = Some (Dir True [(''f'', File)])
      \<and> lookup_node (disk ?s3) [''proj'', ''build''] = None"
    by code_simp
  have k: "remove_konan demo_env ?a st = st" for st
    by (simp add: remove_konan_def demo_args_def)
  note th = guard_failure_skips_tier [OF refl g, where g = "[]" and s' = demo_state]
  from th have m: "disk (snd (main demo_env ?a demo_state)) = disk ?s3"
    by (simp add: k print_def)
  show ?thesis
    using g d3 m by simp
qed

section \<open>The secondary cache directory is not guarded\<close>

text \<open>
  Claim C1 at the example project, with the secondary cache home set to \<open>/tmp/cache\<close>:
  the Gradle user home passes the guard, \<open>/tmp/cache/gradle\<close> does not, and yet
  \<open>safe_rm\<close> is called with it and removes it.
\<close>

theorem xdg_cache_removed_outside_home:
  "confirm_under_home demo_fs ''/proj'' (mk_path ''/home/u/.gradle'') (mk_path ''/home/u'')
   \<and> \<not> confirm_under_home demo_fs ''/proj'' (joinpath (mk_path ''/tmp/cache'') ''gradle'') (mk_path ''/home/u'')
   \<and> exists demo_fs ''/proj'' (joinpath (mk_path ''/tmp/cache'') ''gradle'')
   \<and> Rm (joinpath (mk_path ''/tmp/cache'') ''gradle'') \<in> set (calls (snd (main demo_env demo_args demo_state)))
   \<and> \<not> exists (disk (snd (main demo_env demo_args demo_state))) ''/proj''
         (joinpath (mk_path ''/tmp/cache'') ''gradle'')"
  by code_simp

section \<open>The outcomes of safe_rm\<close>


lemma purge_entries_append:
  "purge_entries w (es @ es') = purge_entries w es @ purge_entries w es'"
  by (induction es) auto



section \<open>The project tree scanner\<close>

lemma visits_File [simp]: "visits cur File cur' n' \<longleftrightarrow> cur' = cur \<and> n' = File"
  by (auto elim: visits.cases intro: visits.intros)

lemma visits_Symlink [simp]: "visits cur (Symlink t) cur' n' \<longleftrightarrow> cur' = cur \<and> n' = Symlink t"
  by (auto elim: visits.cases intro: visits.intros)

lemma visits_Dir:
  "visits cur (Dir w es) cur' n' \<longleftrightarrow>
     (cur' = cur \<and> n' = Dir w es)
     \<or> (\<exists>d ch. (d, ch) \<in> set es \<and> is_Dir ch \<and> d \<notin> set prune \<and> visits (child cur d) ch cur' n')"
  by (auto elim: visits.cases intro: visits.intros)

lemma descend_condition:
  "entry_is_dir fs cwd cur (d, ch) \<and> d \<notin> set prune \<and> \<not> is_Symlink ch \<longleftrightarrow> is_Dir ch \<and> d \<notin> set prune"
  by (cases ch) (auto simp: entry_is_dir_def)

lemma found_Dir:
  "found fs cwd cur (Dir w es) =
     {child cur d | d ch. (d, ch) \<in> set es \<and> entry_is_dir fs cwd cur (d, ch) \<and> d \<in> set artifacts}
     \<union> (\<Union>(d, ch) \<in> {(d, ch). (d, ch) \<in> set es \<and> is_Dir ch \<and> d \<notin> set prune}. found fs cwd (child cur d) ch)"
  unfolding found_def
  apply (subst visits_Dir)
  apply (rule set_eqI)
  apply (simp only: mem_Collect_eq Un_iff UN_iff)
  apply blast
  done

lemma found_File [simp]: "found fs cwd cur File = {}"
  by (simp add: found_def)

lemma found_Symlink [simp]: "found fs cwd cur (Symlink t) = {}"
  by (simp add: found_def)

lemma walk_found:
  "set (walk fs cwd cur n) = found fs cwd cur n"
  "set (descend fs cwd cur es) =
     (\<Union>(d, ch) \<in> {(d, ch). (d, ch) \<in> set es \<and> is_Dir ch \<and> d \<notin> set prune}. found fs cwd (child cur d) ch)"
proof (induction fs cwd cur n and fs cwd cur es rule: walk_descend.induct)
  case (1 fs cwd cur w es)
  have "set (map (child cur) (filter (\<lambda>d. d \<in> set artifacts) (map fst (filter (entry_is_dir fs cwd cur) es))))
    = {child cur d | d ch. (d, ch) \<in> set es \<and> entry_is_dir fs cwd cur (d, ch) \<and> d \<in> set artifacts}"
    by force
  with 1 show ?case
    by (simp add: found_Dir)
next
  case (2 fs cwd cur)
  then show ?case by simp
next
  case (3 fs cwd cur t)
  then show ?case by simp
next
  case (4 fs cwd cur)
  then show ?case by simp
next
  case (5 fs cwd cur d ch es)
  show ?case
  proof (cases "is_Dir ch \<and> d \<notin> set prune")
    case True
    then have c: "entry_is_dir fs cwd cur (d, ch) \<and> d \<notin> set prune \<and> \<not> is_Symlink ch"
      using descend_condition by blast
    have "set (descend fs cwd cur ((d, ch) # es))
        = found fs cwd (child cur d) ch \<union> set (descend fs cwd cur es)"
      using c "5.IH"(1) by simp
    also have "\<dots> = found fs cwd (child cur d) ch
        \<union> (\<Union>(d, ch) \<in> {(d, ch). (d, ch) \<in> set es \<and> is_Dir ch \<and> d \<notin> set prune}. found fs cwd (child cur d) ch)"
      using "5.IH"(2) by simp
    also have "\<dots> = (\<Union>(d, ch) \<in> {(d', ch'). (d', ch') \<in> set ((d, ch) # es) \<and> is_Dir ch' \<and> d' \<notin> set prune}.
        found fs cwd (child cur d) ch)"
      using True by auto
    finally show ?thesis .
  next
    case False
    then have c: "\<not> (entry_is_dir fs cwd cur (d, ch) \<and> d \<notin> set prune \<and> \<not> is_Symlink ch)"
      using descend_condition by blast
    have "set (descend fs cwd cur ((d, ch) # es)) = set (descend fs cwd cur es)"
      using c by auto
    also have "\<dots> = (\<Union>(d, ch) \<in> {(d, ch). (d, ch) \<in> set es \<and> is_Dir ch \<and> d \<notin> set prune}. found fs cwd (child cur d) ch)"
      using "5.IH"(2) by simp
    also have "\<dots> = (\<Union>(d, ch) \<in> {(d', ch'). (d', ch') \<in> set ((d, ch) # es) \<and> is_Dir ch' \<and> d' \<notin> set prune}.
        found fs cwd (child cur d) ch)"
      using False by auto
    finally show ?thesis .
  qed
qed

lemma visits_shape:
  "visits cur n cur' n' \<Longrightarrow>
   \<exists>mid. parts cur' = parts cur @ mid \<and> anchored cur' = anchored cur \<and> set mid \<inter> set prune = {}"
proof (induction rule: visits.induct)
  case (here cur n)
  then show ?case by simp
next
  case (below d ch es cur cur' n' w)
  then obtain mid where "parts cur' = parts (child cur d) @ mid" "anchored cur' = anchored (child cur d)"
    "set mid \<inter> set prune = {}" by blast
  with below.hyps(3) show ?case
    by (intro exI [of _ "d # mid"]) (simp add: child_def)
qed

lemma artifacts_pruned: "d \<in> set artifacts \<Longrightarrow> d \<in> set prune"
  by (auto simp: artifacts_def prune_def)

lemma found_shape:
  assumes "p \<in> found fs cwd cur n"
  shows "\<exists>rel. parts p = parts cur @ rel \<and> anchored p = anchored cur \<and> rel \<noteq> []
           \<and> last rel \<in> set artifacts \<and> set (butlast rel) \<inter> set prune = {}"
proof -
  from assms obtain cur' d where v: "\<exists>n'. visits cur n cur' n'" and d: "d \<in> set artifacts"
    and p: "p = child cur' d"
    by (auto simp: found_def)
  from v visits_shape obtain mid where "parts cur' = parts cur @ mid" "anchored cur' = anchored cur"
    "set mid \<inter> set prune = {}" by blast
  with d p show ?thesis
    by (intro exI [of _ "mid @ [d]"]) (simp add: child_def)
qed

lemma found_not_root: "cur \<notin> found fs cwd cur n"
  using found_shape [of cur fs cwd cur n] by auto

lemma found_not_nested:
  assumes "p \<in> found fs cwd cur n" and "q \<in> found fs cwd cur n"
  shows "\<not> strict_prefix (parts p) (parts q)"
proof
  assume sp: "strict_prefix (parts p) (parts q)"
  from found_shape [OF assms(1)] obtain r1 where r1: "parts p = parts cur @ r1" "r1 \<noteq> []"
    "last r1 \<in> set artifacts" by blast
  from found_shape [OF assms(2)] obtain r2 where r2: "parts q = parts cur @ r2" "r2 \<noteq> []"
    "set (butlast r2) \<inter> set prune = {}" by blast
  from sp r1 r2 have "strict_prefix r1 r2" by (simp add: strict_prefix_def)
  then obtain z zs where "r2 = r1 @ z # zs" by (rule strict_prefixE')
  then have "last r1 \<in> set (butlast r2)"
    using r1(2) by (simp add: butlast_append)
  with r1(3) r2(3) artifacts_pruned show False by blast
qed

lemma found_not_visited:
  assumes "p \<in> found fs cwd cur n"
  shows "\<not> visits cur n p n'"
proof
  assume "visits cur n p n'"
  from visits_shape [OF this] obtain mid where m: "parts p = parts cur @ mid" "set mid \<inter> set prune = {}"
    by blast
  from found_shape [OF assms] obtain rel where r: "parts p = parts cur @ rel" "rel \<noteq> []"
    "last rel \<in> set artifacts" by blast
  from m r have "last rel \<in> set mid" by auto
  with m(2) r(3) artifacts_pruned show False by blast
qed

text \<open>
  Claim C4. The paths \<open>find_project_dirs_to_remove\<close> returns are exactly the entries
  named \<open>build\<close> or \<open>.gradle\<close> that are directories (as \<open>os.walk\<close> classifies
  entries: a link to a directory counts), in the directories reached from the root
  through directories whose names are not pruned. Every returned path is the root
  followed by at least one name, the last one an artifact name and none of the others
  a pruned name (so none lies inside \<open>.git\<close> or another pruned directory), and no
  returned directory is itself reached by the scan.
\<close>

theorem scanner_finds_exactly:
  "set (find_project_dirs_to_remove fs cwd root)
     = (case stat fs cwd root of None \<Rightarrow> {} | Some n \<Rightarrow> found fs cwd root n)
   \<and> (\<forall>p \<in> set (find_project_dirs_to_remove fs cwd root).
        (\<exists>rel. parts p = parts root @ rel \<and> anchored p = anchored root \<and> rel \<noteq> []
               \<and> last rel \<in> set artifacts \<and> set (butlast rel) \<inter> set prune = {})
        \<and> (\<forall>n n'. stat fs cwd root = Some n \<longrightarrow> \<not> visits root n p n'))"
proof (cases "stat fs cwd root")
  case None
  then show ?thesis by (simp add: find_project_dirs_to_remove_def)
next
  case (Some n)
  then have eq: "set (find_project_dirs_to_remove fs cwd root) = found fs cwd root n"
    by (simp add: find_project_dirs_to_remove_def walk_found(1))
  show ?thesis
    using Some eq found_shape [of _ fs cwd root n] found_not_visited [of _ fs cwd root n]
    by auto
qed

text \<open>
  Claim C4 on the example project: \<open>/proj/build\<close>, \<open>/proj/app/.gradle\<close> and the link
  \<open>/proj/app/build\<close> are found; \<open>/proj/.git/build\<close> and \<open>/proj/build/build\<close> are not.
\<close>

theorem scanner_finds_exactly_witness:
  "find_project_dirs_to_remove demo_fs ''/proj'' (mk_path ''/proj'')
     = [Path True [''proj'', ''build''], Path True [''proj'', ''app'', ''.gradle''],
        Path True [''proj'', ''app'', ''build'']]
   \<and> (case stat demo_fs ''/proj'' (mk_path ''/proj'') of None \<Rightarrow> {}
       | Some n \<Rightarrow> found demo_fs ''/proj'' (mk_path ''/proj'') n)
     = {Path True [''proj'', ''build''], Path True [''proj'', ''app'', ''.gradle''],
        Path True [''proj'', ''app'', ''build'']}
   \<and> (\<exists>rel. parts (Path True [''proj'', ''app'', ''.gradle'']) = parts (mk_path ''/proj'') @ rel
          \<and> rel \<noteq> [] \<and> last rel \<in> set artifacts \<and> set (butlast rel) \<inter> set prune = {})"
proof -
  have ev: "find_project_dirs_to_remove demo_fs ''/proj'' (mk_path ''/proj'')
     = [Path True [''proj'', ''build''], Path True [''proj'', ''app'', ''.gradle''],
        Path True [''proj'', ''app'', ''build'']]"
    by code_simp
  note th = scanner_finds_exactly [where fs = demo_fs and cwd = "''/proj''" and root = "mk_path ''/proj''"]
  from th ev have a: "(case stat demo_fs ''/proj'' (mk_path ''/proj'') of None \<Rightarrow> {}
       | Some n \<Rightarrow> found demo_fs ''/proj'' (mk_path ''/proj'') n)
     = {Path True [''proj'', ''build''], Path True [''proj'', ''app'', ''.gradle''],
        Path True [''proj'', ''app'', ''build'']}"
    by simp
  from th ev have b: "\<exists>rel. parts (Path True [''proj'', ''app'', ''.gradle'']) = parts (mk_path ''/proj'') @ rel
          \<and> rel \<noteq> [] \<and> last rel \<in> set artifacts \<and> set (butlast rel) \<inter> set prune = {}"
    by simp blast
  show ?thesis using ev a b by blast
qed

text \<open>
  Claim C9. The root of the scan is never among the returned paths, whatever its name,
  and no returned path is a proper extension of another returned path.
\<close>

theorem scanner_no_root_no_nesting:
  "root \<notin> set (find_project_dirs_to_remove fs cwd root)
   \<and> (\<forall>p \<in> set (find_project_dirs_to_remove fs cwd root).
       \<forall>q \<in> set (find_project_dirs_to_remove fs cwd root). \<not> strict_prefix (parts p) (parts q))"
proof (cases "stat fs cwd root")
  case None
  then show ?thesis by (simp add: find_project_dirs_to_remove_def)
next
  case (Some n)
  then have eq: "set (find_project_dirs_to_remove fs cwd root) = found fs cwd root n"
    by (simp add: find_project_dirs_to_remove_def walk_found(1))
  show ?thesis
    using found_not_root [of root fs cwd n] found_not_nested [of _ fs cwd root n]
    unfolding eq by blast
qed

text \<open>Claim C9 with the scan started in a directory named \<open>build\<close>, and on the example project.\<close>

theorem scanner_no_root_no_nesting_witness:
  "find_project_dirs_to_remove demo_fs ''/proj/build'' (mk_path ''/proj/build'')
     = [Path True [''proj'', ''build'', ''build'']]
   \<and> mk_path ''/proj/build'' \<notin> set (find_project_dirs_to_remove demo_fs ''/proj/build'' (mk_path ''/proj/build''))
   \<and> Path True [''proj'', ''build''] \<in> set (find_project_dirs_to_remove demo_fs ''/proj'' (mk_path ''/proj''))
   \<and> Path True [''proj'', ''app'', ''build''] \<in> set (find_project_dirs_to_remove demo_fs ''/proj'' (mk_path ''/proj''))
   \<and> \<not> strict_prefix (parts (Path True [''proj'', ''build''])) (parts (Path True [''proj'', ''app'', ''build'']))"
proof -
  have ev: "find_project_dirs_to_remove demo_fs ''/proj/build'' (mk_path ''/proj/build'')
     = [Path True [''proj'', ''build'', ''build'']]"
    by code_simp
  have m1: "Path True [''proj'', ''build''] \<in> set (find_project_dirs_to_remove demo_fs ''/proj'' (mk_path ''/proj''))"
    by code_simp
  have m2: "Path True [''proj'', ''app'', ''build''] \<in> set (find_project_dirs_to_remove demo_fs ''/proj'' (mk_path ''/proj''))"
    by code_simp
  note t1 = scanner_no_root_no_nesting [where fs = demo_fs and cwd = "''/proj/build''"
      and root = "mk_path ''/proj/build''", THEN conjunct1]
  note t2 = scanner_no_root_no_nesting [where fs = demo_fs and cwd = "''/proj''"
      and root = "mk_path ''/proj''", THEN conjunct2, rule_format, OF m1 m2]
  show ?thesis using ev m1 m2 t1 t2 by blast
qed

section \<open>What the tiers pass to safe_rm\<close>

declare iglob.simps [simp del]

lemma calls_print [simp]: "calls (print l s) = calls s"
  by (simp add: print_def)

lemma calls_safe_rm: "calls (safe_rm cwd p d v s) = calls s @ [Rm p]"
  by (simp add: safe_rm_def Let_def record_call_def report_removed_def split: sum.splits)

lemma calls_fold_safe_rm:
  "calls (fold (\<lambda>h. safe_rm cwd h d v) hs s) = calls s @ map Rm hs"
  by (induction hs arbitrary: s) (simp_all add: calls_safe_rm)

lemma only_calls_refl: "only_calls P s s"
  by (simp add: only_calls_def)

lemma only_calls_trans: "only_calls P s s' \<Longrightarrow> only_calls P s' s'' \<Longrightarrow> only_calls P s s''"
  by (auto simp: only_calls_def)

lemma only_calls_print: "only_calls P s (print l s)"
  by (simp add: only_calls_def)

lemma only_calls_safe_rm: "P (Rm p) \<Longrightarrow> only_calls P s (safe_rm cwd p d v s)"
  by (simp add: only_calls_def calls_safe_rm)

lemma only_calls_fold_safe_rm:
  "\<forall>h \<in> set hs. P (Rm h) \<Longrightarrow> only_calls P s (fold (\<lambda>h. safe_rm cwd h d v) hs s)"
  by (auto simp: only_calls_def calls_fold_safe_rm)

text \<open>The last component of a match of \<open>glob\<close> matches the last component of the pattern.\<close>

lemma iglob_last:
  assumes "hp \<in> set (iglob fs cwd a dironly (b # rd))"
  shows "hp \<noteq> [] \<and> (if has_magic b then fnmatch (last hp) b else last hp = b)"
proof (cases "list_ex has_magic (b # rd)")
  case False
  with assms show ?thesis
    by (subst (asm) iglob.simps) (auto split: if_splits)
next
  case True
  with assms obtain d name where hp: "hp = d @ [name]"
    and name: "name \<in> set (if has_magic b then glob1 fs cwd (Path a d) b dironly
                            else glob0 fs cwd (Path a d) b)"
    by (subst (asm) iglob.simps) (auto split: if_splits)
  show ?thesis
  proof (cases "has_magic b")
    case True
    with name have "fnmatch name b" by (auto simp: glob1_def Let_def split: if_splits)
    with hp True show ?thesis by simp
  next
    case False
    with name have "name = b" by (auto simp: glob0_def split: if_splits)
    with hp False show ?thesis by simp
  qed
qed

lemma glob_last:
  assumes "hit \<in> set (glob fs cwd p)" and "parts p \<noteq> []"
  shows "parts hit \<noteq> [] \<and> (if has_magic (last (parts p)) then fnmatch (last (parts hit)) (last (parts p))
                             else last (parts hit) = last (parts p))"
proof -
  from assms(2) have r: "rev (parts p) = last (parts p) # rev (butlast (parts p))"
    by (metis append_butlast_last_id rev.simps(2) rev_append rev_singleton_conv append_Cons append_Nil)
  from assms(1) obtain hp where hit: "hit = Path (anchored p) hp"
    and hp: "hp \<in> set (iglob fs cwd (anchored p) False (rev (parts p)))"
    by (auto simp: glob_def)
  from iglob_last [OF hp [unfolded r]] hit show ?thesis by simp
qed

lemma joinpath_last:
  "parse_parts s \<noteq> [] \<Longrightarrow> parts (joinpath p s) \<noteq> [] \<and> last (parts (joinpath p s)) = last (parse_parts s)"
  by (simp add: joinpath_def Let_def mk_path_def)

lemma fnmatch_head:
  "fnmatch n (c # ps) \<Longrightarrow> c \<noteq> CHR ''*'' \<Longrightarrow> c \<noteq> CHR ''?'' \<Longrightarrow> n \<noteq> [] \<and> hd n = c"
  by (cases n) auto

lemma aggressive_name_head:
  "aggressive_name c \<Longrightarrow> c \<noteq> [] \<and> hd c \<in> {CHR ''m'', CHR ''d'', CHR ''j'', CHR ''t''}"
  by (auto simp: aggressive_name_def dest: fnmatch_head)

lemma spares_build_cache: "fnmatch c ''build-cache-*'' \<Longrightarrow> \<not> aggressive_name c"
  by (auto dest!: fnmatch_head aggressive_name_head)

lemma spares_vcs: "fnmatch c ''vcs-*'' \<Longrightarrow> \<not> aggressive_name c"
  by (auto dest!: fnmatch_head aggressive_name_head)

lemma spares_fixed:
  "\<not> aggressive_name ''daemon''" "\<not> aggressive_name ''notifications''"
  "\<not> aggressive_name ''kotlin''" "\<not> aggressive_name ''gradle''"
  by (simp_all add: aggressive_name_def)

lemma parse_fixed:
  "parse_parts ''daemon'' = [''daemon'']" "parse_parts ''notifications'' = [''notifications'']"
  "parse_parts ''kotlin'' = [''kotlin'']" "parse_parts ''gradle'' = [''gradle'']"
  "parse_parts ''caches/build-cache-*'' = [''caches'', ''build-cache-*'']"
  "parse_parts ''vcs-*'' = [''vcs-*'']"
  "parse_parts ''caches/modules-2'' = [''caches'', ''modules-2'']"
  "parse_parts ''caches/jars-*'' = [''caches'', ''jars-*'']"
  "parse_parts ''caches/transforms-*'' = [''caches'', ''transforms-*'']"
  "parse_parts ''wrapper/dists'' = [''wrapper'', ''dists'']"
  by (simp_all add: parse_parts_def sep_def)

lemma spares_joined:
  "spares_aggressive (Rm (joinpath p ''daemon''))"
  "spares_aggressive (Rm (joinpath p ''notifications''))"
  "spares_aggressive (Rm (joinpath p ''kotlin''))"
  "spares_aggressive (Rm (joinpath p ''gradle''))"
  using joinpath_last [of "''daemon''" p] joinpath_last [of "''notifications''" p]
    joinpath_last [of "''kotlin''" p] joinpath_last [of "''gradle''" p]
  by (simp_all add: spares_aggressive_def parse_fixed spares_fixed)

lemma magic_patterns:
  "has_magic ''build-cache-*''" "has_magic ''vcs-*''" "has_magic ''jars-*''"
  "has_magic ''transforms-*''" "\<not> has_magic ''modules-2''" "\<not> has_magic ''dists''"
  by (simp_all add: has_magic_def)

lemma spares_glob_build_cache:
  "hit \<in> set (glob fs cwd (joinpath p ''caches/build-cache-*'')) \<Longrightarrow> spares_aggressive (Rm hit)"
  using glob_last [of hit fs cwd "joinpath p ''caches/build-cache-*''"]
    joinpath_last [of "''caches/build-cache-*''" p]
  by (simp add: spares_aggressive_def parse_fixed magic_patterns spares_build_cache)

lemma spares_glob_vcs:
  "hit \<in> set (glob fs cwd (joinpath p ''vcs-*'')) \<Longrightarrow> spares_aggressive (Rm hit)"
  using glob_last [of hit fs cwd "joinpath p ''vcs-*''"] joinpath_last [of "''vcs-*''" p]
  by (simp add: spares_aggressive_def parse_fixed magic_patterns spares_vcs)

lemma only_calls_kotlin_fold:
  "only_calls spares_aggressive s
     (fold (\<lambda>name st.
              if is_dir (disk st) cwd (child c name)
              then safe_rm cwd (joinpath (child c name) ''kotlin'') d v st
              else st) ns s)"
proof (induction ns arbitrary: s)
  case Nil
  show ?case by (simp add: only_calls_refl)
next
  case (Cons n ns)
  let ?s1 = "if is_dir (disk s) cwd (child c n)
             then safe_rm cwd (joinpath (child c n) ''kotlin'') d v s else s"
  have "only_calls spares_aggressive s ?s1"
    by (simp add: only_calls_refl only_calls_safe_rm spares_joined)
  from only_calls_trans [OF this Cons.IH [of ?s1]] show ?case by simp
qed

lemma only_calls_kotlin: "only_calls spares_aggressive s (remove_kotlin_shards e a c s)"
  by (simp add: remove_kotlin_shards_def only_calls_refl only_calls_kotlin_fold)

lemma only_calls_xdg: "only_calls spares_aggressive s (remove_xdg_gradle e a s)"
  by (simp add: remove_xdg_gradle_def Let_def only_calls_refl only_calls_safe_rm spares_joined)

lemma only_calls_safe_subset: "only_calls spares_aggressive s (prune_safe_subset e a s)"
proof -
  let ?guh = "mk_path (gradle_user_home a)"
  let ?rm = "\<lambda>p. safe_rm (getcwd e) p (dry_run a) (verbose a)"
  let ?s1 = "print ''>> Pruning user-level Gradle caches (safe subset)'' s"
  let ?s2a = "?rm (joinpath ?guh ''daemon'') ?s1"
  let ?s2 = "?rm (joinpath ?guh ''notifications'') ?s2a"
  let ?s3a = "fold ?rm (glob (disk ?s2) (getcwd e) (joinpath ?guh ''caches/build-cache-*'')) ?s2"
  let ?s3 = "fold ?rm (glob (disk ?s3a) (getcwd e) (joinpath ?guh ''vcs-*'')) ?s3a"
  let ?s4 = "remove_kotlin_shards e a (joinpath ?guh ''caches'') ?s3"
  have eq: "prune_safe_subset e a s = remove_xdg_gradle e a ?s4"
    by (simp add: prune_safe_subset_def Let_def)
  have 1: "only_calls spares_aggressive s ?s1" by (rule only_calls_print)
  have 2: "only_calls spares_aggressive ?s1 ?s2a" by (rule only_calls_safe_rm) (rule spares_joined)
  have 3: "only_calls spares_aggressive ?s2a ?s2" by (rule only_calls_safe_rm) (rule spares_joined)
  have 4: "only_calls spares_aggressive ?s2 ?s3a"
    by (rule only_calls_fold_safe_rm) (blast intro: spares_glob_build_cache)
  have 5: "only_calls spares_aggressive ?s3a ?s3"
    by (rule only_calls_fold_safe_rm) (blast intro: spares_glob_vcs)
  have 6: "only_calls spares_aggressive ?s3 ?s4" by (rule only_calls_kotlin)
  have 7: "only_calls spares_aggressive ?s4 (remove_xdg_gradle e a ?s4)" by (rule only_calls_xdg)
  show ?thesis
    unfolding eq
    using 1 2 3 4 5 6 7 by (blast intro: only_calls_trans)
qed

lemma only_calls_user_level:
  "\<not> aggressive a \<Longrightarrow> only_calls spares_aggressive s (prune_user_level e a s)"
  by (simp add: prune_user_level_def prune_aggressive_def only_calls_print only_calls_safe_subset)

lemma takes_glob:
  assumes "hit \<in> set (glob fs cwd (joinpath p pat))" and "pat \<in> set aggressive_patterns"
  shows "takes_aggressive (Rm hit)"
proof -
  from assms(2) have pl: "parse_parts pat \<noteq> []"
    and an: "if has_magic (last (parse_parts pat))
             then \<forall>c. fnmatch c (last (parse_parts pat)) \<longrightarrow> aggressive_name c
             else aggressive_name (last (parse_parts pat))"
    by (auto simp: aggressive_patterns_def parse_fixed magic_patterns aggressive_name_def)
  from joinpath_last [OF pl, of p] glob_last [OF assms(1)] an show ?thesis
    by (auto simp: takes_aggressive_def split: if_splits)
qed

lemma only_calls_glob_and_remove:
  "\<forall>pat \<in> set pats. \<forall>fs. \<forall>hit \<in> set (glob fs cwd (joinpath base pat)). P (Rm hit) \<Longrightarrow>
   only_calls P s (glob_and_remove cwd base pats d v s)"
proof (induction pats arbitrary: s)
  case Nil
  show ?case by (simp add: only_calls_refl)
next
  case (Cons pat pats)
  let ?s1 = "fold (\<lambda>hit. safe_rm cwd hit d v) (glob (disk s) cwd (joinpath base pat)) s"
  have "only_calls P s ?s1"
    using Cons.prems by (intro only_calls_fold_safe_rm) simp
  moreover have "only_calls P ?s1 (glob_and_remove cwd base pats d v ?s1)"
    using Cons.prems by (intro Cons.IH) simp
  ultimately show ?case
    by (simp add: only_calls_trans)
qed

lemma only_calls_aggressive: "only_calls takes_aggressive s (prune_aggressive e a s)"
proof (cases "aggressive a")
  case False
  then show ?thesis by (simp add: prune_aggressive_def only_calls_refl)
next
  case True
  have "only_calls takes_aggressive (print ''>> AGGRESSIVE: removing dependency caches and wrapper dists'' s)
     (glob_and_remove (getcwd e) (mk_path (gradle_user_home a)) aggressive_patterns (dry_run a) (verbose a)
        (print ''>> AGGRESSIVE: removing dependency caches and wrapper dists'' s))"
    by (rule only_calls_glob_and_remove) (blast intro: takes_glob)
  with True only_calls_print [of takes_aggressive s] show ?thesis
    by (auto simp: prune_aggressive_def intro: only_calls_trans)
qed

lemma calls_glob_and_remove_one:
  "calls (glob_and_remove cwd base [pat] d v s) = calls s @ map Rm (glob (disk s) cwd (joinpath base pat))"
  by (simp add: calls_fold_safe_rm)

lemma glob_and_remove_append:
  "glob_and_remove cwd base (ps @ qs) d v s
     = glob_and_remove cwd base qs d v (glob_and_remove cwd base ps d v s)"
  by (induction ps arbitrary: s) simp_all

section \<open>The aggressive tier\<close>




section \<open>Dry run: the whole run\<close>

lemma only_calls_mono:
  "only_calls P s s' \<Longrightarrow> (\<And>ev. P ev \<Longrightarrow> Q ev) \<Longrightarrow> only_calls Q s s'"
  by (auto simp: only_calls_def)

lemma spares_is_Rm: "spares_aggressive ev \<Longrightarrow> is_Rm ev"
  by (cases ev) (simp_all add: spares_aggressive_def is_Rm_def)

lemma takes_is_Rm: "takes_aggressive ev \<Longrightarrow> is_Rm ev"
  by (cases ev) (simp_all add: takes_aggressive_def is_Rm_def)

lemma is_Rm_Rm [simp]: "is_Rm (Rm p)"
  by (simp add: is_Rm_def)

lemma only_rm_banner: "only_calls is_Rm s (banner e a s)"
  by (simp add: only_calls_def banner_def)

lemma only_rm_stop_daemons: "dry_run a \<Longrightarrow> only_calls is_Rm s (stop_daemons e a s)"
  by (simp add: only_calls_def stop_daemons_def run_cmd_dry)

lemma only_rm_clean_build_cache: "dry_run a \<Longrightarrow> only_calls is_Rm s (clean_build_cache e a s)"
  by (simp add: only_calls_def clean_build_cache_def run_cmd_dry)

lemma only_rm_project_local: "only_calls is_Rm s (remove_project_local e a s)"
  by (simp add: only_calls_def remove_project_local_def Let_def calls_fold_safe_rm)

lemma only_rm_user_level: "only_calls is_Rm s (prune_user_level e a s)"
proof (cases "confirm_under_home (disk s) (getcwd e) (mk_path (gradle_user_home a)) (mk_path (HOME e))")
  case False
  then show ?thesis by (simp add: prune_user_level_def only_calls_print)
next
  case True
  have "only_calls is_Rm s (prune_safe_subset e a s)"
    using only_calls_safe_subset spares_is_Rm by (rule only_calls_mono)
  moreover have "only_calls is_Rm (prune_safe_subset e a s) (prune_aggressive e a (prune_safe_subset e a s))"
    using only_calls_aggressive takes_is_Rm by (rule only_calls_mono)
  ultimately show ?thesis
    using True by (simp add: prune_user_level_def only_calls_trans)
qed

lemma only_rm_konan: "only_calls is_Rm s (remove_konan e a s)"
  by (simp add: only_calls_def remove_konan_def Let_def calls_safe_rm)

lemma only_rm_main:
  assumes "dry_run a"
  shows "only_calls is_Rm s (snd (main e a s))"
proof -
  let ?s0 = "banner e a s"
  let ?s1 = "stop_daemons e a ?s0"
  let ?s2 = "clean_build_cache e a ?s1"
  let ?s3 = "remove_project_local e a ?s2"
  let ?s5 = "prune_user_level e a ?s3"
  let ?s6 = "remove_konan e a ?s5"
  have "only_calls is_Rm s ?s6"
    using only_rm_banner [of s e a] only_rm_stop_daemons [OF assms, of ?s0 e]
      only_rm_clean_build_cache [OF assms, of ?s1 e] only_rm_project_local [of ?s2 e a]
      only_rm_user_level [of ?s3 e a] only_rm_konan [of ?s5 e a]
    by (blast intro: only_calls_trans)
  from only_calls_trans [OF this only_calls_print] show ?thesis
    by (simp add: main_def)
qed

text \<open>
  Claim C3. With the dry-run flag set, the filesystem after the whole run is the
  filesystem before it, the run is the same whatever \<open>subprocess.run\<close> would do (it
  is not called), and the calls it makes are calls of \<open>safe_rm\<close> only. In dry-run
  mode \<open>safe_rm\<close> leaves the filesystem alone and prints at most the line naming
  what it would remove, \<open>run_cmd\<close> prints the command and returns without calling
  \<open>subprocess.run\<close>, and \<open>glob_and_remove\<close> leaves the filesystem alone.
\<close>

theorem dry_run_leaves_filesystem:
  assumes "dry_run a"
  shows "disk (snd (main e a s)) = disk s
    \<and> main (e\<lparr>subprocess_run := sp\<rparr>) a s = main e a s
    \<and> only_calls is_Rm s (snd (main e a s))
    \<and> disk (safe_rm cwd p True v s) = disk s
    \<and> (stdout (safe_rm cwd p True v s) = stdout s
        \<or> stdout (safe_rm cwd p True v s) = stdout s @ [''DRY-RUN: rm -rf '' @ str p])
    \<and> run_cmd sp cmd wd True v s =
        (0, print (''DRY-RUN: would run: '' @ join_space cmd @ '' (cwd='' @ str wd @ '')'') s)
    \<and> disk (glob_and_remove cwd base pats True v s) = disk s"
  using assms main_dry_disk [where a = a and e = e and s = s]
    main_dry_spawner [where a = a and e = e and sp = sp and s = s]
    safe_rm_dry_stdout [where cwd = cwd and p = p and v = v and s = s]
    only_rm_main [where a = a and e = e and s = s]
  by (simp add: safe_rm_dry_disk run_cmd_dry glob_and_remove_dry_disk)

text \<open>Claim C3 on the example project, with the dry-run and aggressive flags set.\<close>

theorem dry_run_leaves_filesystem_witness:
  "dry_run (demo_args\<lparr>dry_run := True, aggressive := True\<rparr>)
   \<and> disk (snd (main demo_env (demo_args\<lparr>dry_run := True, aggressive := True\<rparr>) demo_state)) = demo_fs
   \<and> only_calls is_Rm demo_state (snd (main demo_env (demo_args\<lparr>dry_run := True, aggressive := True\<rparr>) demo_state))"
  using dry_run_leaves_filesystem
    [where a = "demo_args\<lparr>dry_run := True, aggressive := True\<rparr>" and e = demo_env and s = demo_state]
  by (simp add: demo_state_def)

end
